theory Spec2Isabelle
  imports Main "HOL-Library.Word"
begin

unbundle bit_operations_syntax

section \<open>Data model\<close>

text \<open>
  The word generator of \<^verbatim>\<open>src/index.ts\<close>. An optional property of a JavaScript object is
  an \<open>option\<close>: \<open>None\<close> is the absent (undefined) property. The numeric options are integers
  (the documented use); the running \<open>numeric\<close> of a word object only ever holds
  a sum of four unsigned 32-bit reads, so it is a natural number below \<open>2 ^ 34\<close>, a range in
  which the double arithmetic of JavaScript is exact and \<open>String(n)\<close> is plain decimal.
\<close>

type_synonym u8 = "8 word"
type_synonym u32 = "32 word"

record PhoneticOptions =
  syllables :: "int option"
  seed :: "string option"
  phoneticSimplicity :: "int option"
  compoundSimplicity :: "int option"
  capFirst :: "bool option"

record PhoneticWordObject =
  numeric :: nat
  lastSkippedPre :: bool
  lastSkippedPost :: bool
  word :: string
  opts :: PhoneticOptions

text \<open>
  The two exceptions \<^verbatim>\<open>getNumericHash\<close> can raise: its own \<^verbatim>\<open>Error('hex is not a string')\<close>
  and the range error of \<^verbatim>\<open>buf.readUInt32LE\<close> on a buffer that is too short.
\<close>

datatype error = HexNotString | RangeError

text \<open>
  The digest is not code of this repository (\<^verbatim>\<open>Md5\<close> of ts-md5 and \<^verbatim>\<open>Buffer.from(hex, 'hex')\<close>),
  so the functions take it as a parameter: the bytes of the buffer decoded from
  \<^verbatim>\<open>hash.end()\<close> after \<^verbatim>\<open>hash.appendStr(s)\<close>, or \<open>None\<close> when \<^verbatim>\<open>hash.end()\<close> is not a string.
\<close>

type_synonym digest = "string \<Rightarrow> u8 list option"

section \<open>Phonetic tables\<close>

definition PHONETIC_PRE :: "string list" where
  "PHONETIC_PRE =
    [''b'', ''c'', ''d'', ''f'', ''g'', ''h'', ''j'', ''k'', ''l'', ''m'', ''n'', ''p'',
     ''qu'', ''r'', ''s'', ''t'',
     ''bl'', ''ch'', ''cl'', ''cr'', ''dr'', ''fl'', ''fr'', ''gl'', ''gr'', ''kl'', ''kr'',
     ''ph'', ''pr'', ''pl'', ''sc'', ''sh'', ''sl'', ''sn'', ''sr'', ''st'', ''str'', ''sw'',
     ''th'', ''tr'', ''br'', ''v'', ''w'', ''y'', ''z'']"

definition PHONETIC_PRE_SIMPLE_LENGTH :: nat where
  "PHONETIC_PRE_SIMPLE_LENGTH = 16"

definition PHONETIC_MID :: "string list" where
  "PHONETIC_MID = [''a'', ''e'', ''i'', ''o'', ''u'', ''ee'', ''ie'', ''oo'', ''ou'', ''ue'']"

definition PHONETIC_MID_SIMPLE_LENGTH :: nat where
  "PHONETIC_MID_SIMPLE_LENGTH = 5"

definition PHONETIC_POST :: "string list" where
  "PHONETIC_POST =
    [''b'', ''d'', ''f'', ''g'', ''k'', ''l'', ''m'', ''n'', ''p'', ''r'', ''s'', ''t'', ''y'',
     ''ch'', ''ck'', ''ln'', ''nk'', ''ng'', ''rn'', ''sh'', ''sk'', ''st'', ''th'', ''x'', ''z'']"

definition PHONETIC_POST_SIMPLE_LENGTH :: nat where
  "PHONETIC_POST_SIMPLE_LENGTH = 13"

section \<open>JavaScript primitives the code uses\<close>

text \<open>\<^verbatim>\<open>a % b\<close> for a dividend that is not negative: \<open>None\<close> is NaN (\<open>b = 0\<close>); the sign of
  the divisor does not matter.\<close>

definition js_rem :: "nat \<Rightarrow> int \<Rightarrow> nat option" where
  "js_rem a b = (if b = 0 then None else Some (a mod nat \<bar>b\<bar>))"

text \<open>\<^verbatim>\<open>String(n)\<close>, the text a number contributes to \<^verbatim>\<open>numeric + word\<close>.\<close>

definition digit :: "nat \<Rightarrow> char" where
  "digit d = ''0123456789'' ! d"

fun decimal :: "nat \<Rightarrow> string" where
  "decimal n =
     (if n < 10 then [digit n]
      else decimal (n div 10) @ [digit (n mod 10)])"

declare decimal.simps [simp del]

text \<open>\<^verbatim>\<open>toUpperCase\<close> on the characters a word holds, the letters \<open>a\<close> to \<open>z\<close>; any other
  character is left as it is.\<close>

definition upper_char :: "char \<Rightarrow> char" where
  "upper_char c =
     (if 97 \<le> (of_char c :: nat) \<and> (of_char c :: nat) \<le> 122
      then char_of ((of_char c :: nat) - 32) else c)"

definition toUpperCase :: "string \<Rightarrow> string" where
  "toUpperCase s = map upper_char s"

text \<open>\<^verbatim>\<open>word += x\<close>: an undefined \<open>x\<close> is appended as the text \<open>undefined\<close>.\<close>

definition js_str :: "string option \<Rightarrow> string" where
  "js_str x = (case x of None \<Rightarrow> ''undefined'' | Some s \<Rightarrow> s)"

section \<open>capFirst and getDerivative\<close>

definition capFirst_str :: "string \<Rightarrow> string" where
  "capFirst_str str = toUpperCase (take 1 str) @ drop 1 str"

function getDerivative_loop :: "nat \<Rightarrow> nat \<Rightarrow> nat" where
  "getDerivative_loop derivative num =
     (if num \<noteq> 0 then getDerivative_loop (derivative + num mod 7) (num div 7)
      else derivative)"
  by pat_completeness auto
termination
  by (relation "measure (\<lambda>(derivative, num). num)") auto

declare getDerivative_loop.simps [simp del]

definition getDerivative :: "nat \<Rightarrow> nat" where
  "getDerivative num = getDerivative_loop 1 num"

section \<open>getOptions\<close>

text \<open>
  \<open>rnd\<close> is the text \<^verbatim>\<open>randomBytes(16).toString('base64')\<close> yields when it is evaluated:
  the one input of \<^verbatim>\<open>generate\<close> that is not in its argument. \<^verbatim>\<open>x || y\<close> takes \<open>y\<close> when \<open>x\<close> is
  undefined, \<open>0\<close> or the empty string. An undefined \<^verbatim>\<open>overrides\<close> is the
  record with every field \<open>None\<close>.
\<close>

definition getOptions :: "string \<Rightarrow> PhoneticOptions \<Rightarrow> PhoneticOptions" where
  "getOptions rnd overrides =
     \<lparr> syllables =
         Some (case syllables overrides of None \<Rightarrow> 3 | Some n \<Rightarrow> if n = 0 then 3 else n),
       seed =
         Some (case seed overrides of None \<Rightarrow> rnd | Some s \<Rightarrow> if s = [] then rnd else s),
       phoneticSimplicity =
         Some (case phoneticSimplicity overrides of None \<Rightarrow> 5
               | Some p \<Rightarrow> if p = 0 then 5 else max p 1),
       compoundSimplicity =
         Some (case compoundSimplicity overrides of None \<Rightarrow> 5
               | Some c \<Rightarrow> if c = 0 then 5 else max c 1),
       capFirst =
         (case capFirst overrides of None \<Rightarrow> Some True | Some b \<Rightarrow> Some b) \<rparr>"

section \<open>getNumericHash\<close>

definition readUInt32LE :: "u8 list \<Rightarrow> nat \<Rightarrow> error + nat" where
  "readUInt32LE buf i =
     (if i + 4 \<le> length buf
      then Inr (unat (buf ! i) + 2 ^ 8 * unat (buf ! (i + 1))
                + 2 ^ 16 * unat (buf ! (i + 2)) + 2 ^ 24 * unat (buf ! (i + 3)))
      else Inl RangeError)"

text \<open>\<^verbatim>\<open>for (var i = 0; i <= 12; i += 4) numeric += buf.readUInt32LE(i)\<close>, with the
  local \<^verbatim>\<open>numeric\<close> as the accumulator \<open>acc\<close>.\<close>

function getNumericHash_loop :: "u8 list \<Rightarrow> nat \<Rightarrow> nat \<Rightarrow> error + nat" where
  "getNumericHash_loop buf i acc =
     (if i \<le> 12
      then (case readUInt32LE buf i of
              Inl e \<Rightarrow> Inl e
            | Inr v \<Rightarrow> getNumericHash_loop buf (i + 4) (acc + v))
      else Inr acc)"
  by pat_completeness auto
termination
  by (relation "measure (\<lambda>(buf, i, acc). 13 - i)") auto

declare getNumericHash_loop.simps [simp del]

definition getNumericHash :: "digest \<Rightarrow> string \<Rightarrow> error + nat" where
  "getNumericHash md5 data =
     (case md5 (data @ ''-Phonetic'') of
        None \<Rightarrow> Inl HexNotString
      | Some buf \<Rightarrow> getNumericHash_loop buf 0 0)"

section \<open>getNextPhonetic\<close>

text \<open>
  The declarations of \<^verbatim>\<open>getNextPhonetic\<close> up to \<^verbatim>\<open>phonetic\<close>: the chosen cap and the
  table entry, \<open>None\<close> for the undefined of an index out of range (or NaN).
\<close>

definition phoneticCap :: "string list \<Rightarrow> nat \<Rightarrow> PhoneticWordObject \<Rightarrow> bool \<Rightarrow> nat" where
  "phoneticCap phoneticSet simpleCap wordObj forceSimple =
     (let deriv = getDerivative (numeric wordObj);
          simple =
            (case js_rem (numeric wordObj + deriv)
                    (case phoneticSimplicity (opts wordObj) of
                       None \<Rightarrow> 5 | Some p \<Rightarrow> if p = 0 then 5 else p) of
               None \<Rightarrow> False
             | Some r \<Rightarrow> r > 0)
      in if simple \<or> forceSimple then simpleCap else length phoneticSet)"

definition selectPhonetic ::
  "string list \<Rightarrow> nat \<Rightarrow> PhoneticWordObject \<Rightarrow> bool \<Rightarrow> string option" where
  "selectPhonetic phoneticSet simpleCap wordObj forceSimple =
     (case js_rem (numeric wordObj)
             (int (phoneticCap phoneticSet simpleCap wordObj forceSimple)) of
        None \<Rightarrow> None
      | Some i \<Rightarrow> if i < length phoneticSet then Some (phoneticSet ! i) else None)"

text \<open>
  The function returns the phonetic and the word object with its new \<open>numeric\<close>; the hash
  reads \<^verbatim>\<open>wordObj.numeric + wordObj.word\<close>, the decimal text of the number followed by the word.
\<close>

definition getNextPhonetic ::
  "digest \<Rightarrow> string list \<Rightarrow> nat \<Rightarrow> PhoneticWordObject \<Rightarrow> bool
     \<Rightarrow> error + (string option \<times> PhoneticWordObject)" where
  "getNextPhonetic md5 phoneticSet simpleCap wordObj forceSimple =
     (let phonetic = selectPhonetic phoneticSet simpleCap wordObj forceSimple
      in case getNumericHash md5 (decimal (numeric wordObj) @ word wordObj) of
           Inl e \<Rightarrow> Inl e
         | Inr h \<Rightarrow> Inr (phonetic, wordObj\<lparr>numeric := h\<rparr>))"

section \<open>addSyllable\<close>

text \<open>
  \<^verbatim>\<open>wordObj.word += getNextPhonetic(...)\<close> reads the word, calls the function (which changes
  \<open>numeric\<close> only) and stores the old word followed by the phonetic.
\<close>

definition appendPhonetic ::
  "(bool \<Rightarrow> PhoneticWordObject \<Rightarrow> PhoneticWordObject)
     \<Rightarrow> error + (string option \<times> PhoneticWordObject) \<Rightarrow> error + PhoneticWordObject" where
  "appendPhonetic setSkipped r =
     (case r of
        Inl e \<Rightarrow> Inl e
      | Inr (phonetic, wordObj) \<Rightarrow>
          Inr (setSkipped False (wordObj\<lparr>word := word wordObj @ js_str phonetic\<rparr>)))"

definition addSyllable :: "digest \<Rightarrow> PhoneticWordObject \<Rightarrow> error + PhoneticWordObject" where
  "addSyllable md5 wordObj =
     (let deriv = getDerivative (numeric wordObj);
          compound =
            (js_rem deriv (case compoundSimplicity (opts wordObj) of None \<Rightarrow> 5 | Some c \<Rightarrow> c)
               = Some 0);
          first = (word wordObj = []);
          preOnFirst = (deriv mod 6 > 0)
      in case (if (first \<and> preOnFirst) \<or> lastSkippedPost wordObj \<or> compound
               then appendPhonetic (\<lambda>b w. w\<lparr>lastSkippedPre := b\<rparr>)
                      (getNextPhonetic md5 PHONETIC_PRE PHONETIC_PRE_SIMPLE_LENGTH wordObj False)
               else Inr (wordObj\<lparr>lastSkippedPre := True\<rparr>)) of
           Inl e \<Rightarrow> Inl e
         | Inr w1 \<Rightarrow>
            (case appendPhonetic (\<lambda>b w. w)
                    (getNextPhonetic md5 PHONETIC_MID PHONETIC_MID_SIMPLE_LENGTH w1
                       (first \<and> lastSkippedPre w1)) of
               Inl e \<Rightarrow> Inl e
             | Inr w2 \<Rightarrow>
                 if lastSkippedPre w2 \<or> compound
                 then appendPhonetic (\<lambda>b w. w\<lparr>lastSkippedPost := b\<rparr>)
                        (getNextPhonetic md5 PHONETIC_POST PHONETIC_POST_SIMPLE_LENGTH w2 False)
                 else Inr (w2\<lparr>lastSkippedPost := True\<rparr>)))"

section \<open>Regular expressions of REPLACEMENTS\<close>

text \<open>
  \<^verbatim>\<open>new RegExp(i)\<close> and \<^verbatim>\<open>String.prototype.replace\<close> for the constructs the table uses. A
  pattern is its syntax tree; \<open>rmatch r s i cs\<close> lists, in the order a backtracking matcher
  tries them, the ends (and captures) of the matches of \<open>r\<close> in \<open>s\<close> that start at \<open>i\<close>.
\<close>

datatype regex =
    Chr char              \<comment> \<open>a literal character\<close>
  | Dot                   \<comment> \<open>\<^verbatim>\<open>.\<close>: any character but a line terminator\<close>
  | Cls "char list"       \<comment> \<open>\<^verbatim>\<open>[...]\<close>\<close>
  | Bol                   \<comment> \<open>\<^verbatim>\<open>^\<close>\<close>
  | Eol                   \<comment> \<open>\<^verbatim>\<open>$\<close>\<close>
  | Eps                   \<comment> \<open>the empty pattern\<close>
  | Seq regex regex
  | Alt regex regex       \<comment> \<open>\<^verbatim>\<open>a|b\<close>\<close>
  | Grp nat regex         \<comment> \<open>the capturing group of that number\<close>
  | NegLook regex         \<comment> \<open>\<^verbatim>\<open>(?!r)\<close>\<close>

type_synonym captures = "nat \<Rightarrow> string option"

fun rmatch :: "regex \<Rightarrow> string \<Rightarrow> nat \<Rightarrow> captures \<Rightarrow> (nat \<times> captures) list" where
  "rmatch (Chr c) s i cs = (if i < length s \<and> s ! i = c then [(i + 1, cs)] else [])"
| "rmatch Dot s i cs =
     (if i < length s \<and> s ! i \<noteq> CHR 0x0A \<and> s ! i \<noteq> CHR 0x0D then [(i + 1, cs)] else [])"
| "rmatch (Cls xs) s i cs = (if i < length s \<and> s ! i \<in> set xs then [(i + 1, cs)] else [])"
| "rmatch Bol s i cs = (if i = 0 then [(i, cs)] else [])"
| "rmatch Eol s i cs = (if i = length s then [(i, cs)] else [])"
| "rmatch Eps s i cs = [(i, cs)]"
| "rmatch (Seq a b) s i cs = concat (map (\<lambda>(j, cs'). rmatch b s j cs') (rmatch a s i cs))"
| "rmatch (Alt a b) s i cs = rmatch a s i cs @ rmatch b s i cs"
| "rmatch (Grp k a) s i cs =
     map (\<lambda>(j, cs'). (j, cs'(k \<mapsto> take (j - i) (drop i s)))) (rmatch a s i cs)"
| "rmatch (NegLook a) s i cs = (case rmatch a s i cs of [] \<Rightarrow> [(i, cs)] | _ # _ \<Rightarrow> [])"

text \<open>A literal text, and \<^verbatim>\<open>r{n}\<close> as \<open>n\<close> copies in sequence (a group inside keeps its
  last capture).\<close>

definition lit :: "string \<Rightarrow> regex" where
  "lit s = foldr (\<lambda>c r. Seq (Chr c) r) s Eps"

primrec rep :: "nat \<Rightarrow> regex \<Rightarrow> regex" where
  "rep 0 r = Eps"
| "rep (Suc n) r = Seq r (rep n r)"

text \<open>The first match: the least start, and there the first alternative: (start, end, captures).\<close>

function regex_exec :: "regex \<Rightarrow> string \<Rightarrow> nat \<Rightarrow> (nat \<times> nat \<times> captures) option" where
  "regex_exec r s i =
     (if i > length s then None
      else (case rmatch r s i (\<lambda>k. None) of
              [] \<Rightarrow> regex_exec r s (i + 1)
            | (j, cs) # _ \<Rightarrow> Some (i, j, cs)))"
  by pat_completeness auto
termination
  by (relation "measure (\<lambda>(r, s, i). Suc (length s) - i)") auto

declare regex_exec.simps [simp del]

text \<open>A replacement text: literal pieces and references \<^verbatim>\<open>$k\<close> (a group that did not take
  part gives the empty text).\<close>

datatype piece = Lit string | Ref nat

definition expand :: "piece list \<Rightarrow> captures \<Rightarrow> string" where
  "expand t cs =
     concat (map (\<lambda>p. case p of Lit x \<Rightarrow> x
                              | Ref k \<Rightarrow> (case cs k of None \<Rightarrow> [] | Some v \<Rightarrow> v)) t)"

text \<open>\<^verbatim>\<open>str.replace(regex, replacement)\<close> for a regex without flags: the first match only.\<close>

definition js_replace :: "regex \<Rightarrow> piece list \<Rightarrow> string \<Rightarrow> string" where
  "js_replace r t s =
     (case regex_exec r s 0 of
        None \<Rightarrow> s
      | Some (i, j, cs) \<Rightarrow> take i s @ expand t cs @ drop j s)"

text \<open>
  The table, in the order of its keys (none is an integer index, so \<^verbatim>\<open>for ... in\<close> visits
  them as written):
  \<^verbatim>\<open>quu: 'que'\<close>, \<^verbatim>\<open>'qu([aeiou]){2}': 'qu$1'\<close>, \<^verbatim>\<open>'[iu]y': 'ey'\<close>, \<^verbatim>\<open>eye: 'ye'\<close>,
  \<^verbatim>\<open>'(.)ye$': '$1y'\<close>, \<^verbatim>\<open>'(^|e)cie(?!$)': '$1cei'\<close>, \<^verbatim>\<open>'([vz])$': '$1e'\<close>, \<^verbatim>\<open>'[iu]w': 'ow'\<close>.
\<close>

definition REPLACEMENTS :: "(regex \<times> piece list) list" where
  "REPLACEMENTS =
    [(lit ''quu'', [Lit ''que'']),
     (Seq (lit ''qu'') (rep 2 (Grp 1 (Cls ''aeiou''))), [Lit ''qu'', Ref 1]),
     (Seq (Cls ''iu'') (Chr CHR ''y''), [Lit ''ey'']),
     (lit ''eye'', [Lit ''ye'']),
     (Seq (Grp 1 Dot) (Seq (lit ''ye'') Eol), [Ref 1, Lit ''y'']),
     (Seq (Grp 1 (Alt Bol (Chr CHR ''e''))) (Seq (lit ''cie'') (NegLook Eol)),
        [Ref 1, Lit ''cei'']),
     (Seq (Grp 1 (Cls ''vz'')) Eol, [Ref 1, Lit ''e'']),
     (Seq (Cls ''iu'') (Chr CHR ''w''), [Lit ''ow''])]"

section \<open>postProcess\<close>

definition postProcess :: "PhoneticWordObject \<Rightarrow> string" where
  "postProcess wordObj =
     (let w = foldl (\<lambda>w (regex, replacement). js_replace regex replacement w)
                (word wordObj) REPLACEMENTS
      in if capFirst (opts wordObj) = Some True then capFirst_str w else w)"

section \<open>generate\<close>

text \<open>
  \<^verbatim>\<open>while (syllables--) addSyllable(wordObj)\<close>: the loop leaves when the counter it reads is
  \<open>0\<close>, so it may not return: \<open>None\<close> is the run that never leaves the loop.
\<close>

partial_function (option) syllable_loop ::
  "digest \<Rightarrow> int \<Rightarrow> PhoneticWordObject \<Rightarrow> (error + PhoneticWordObject) option" where
  "syllable_loop md5 n wordObj =
     (if n = 0 then Some (Inr wordObj)
      else (case addSyllable md5 wordObj of
              Inl e \<Rightarrow> Some (Inl e)
            | Inr w' \<Rightarrow> syllable_loop md5 (n - 1) w'))"

declare syllable_loop.simps [code]

text \<open>The word object of \<^verbatim>\<open>generate\<close> when the loop is left, before \<^verbatim>\<open>postProcess\<close>.\<close>

definition generate_wordObj ::
  "digest \<Rightarrow> string \<Rightarrow> PhoneticOptions \<Rightarrow> (error + PhoneticWordObject) option" where
  "generate_wordObj md5 rnd options0 =
     (let options = getOptions rnd options0;
          n = (case syllables options of None \<Rightarrow> 3 | Some n \<Rightarrow> if n = 0 then 3 else n)
      in case getNumericHash md5 (case seed options of None \<Rightarrow> [] | Some s \<Rightarrow> s) of
           Inl e \<Rightarrow> Some (Inl e)
         | Inr h \<Rightarrow>
             syllable_loop md5 n
               \<lparr> numeric = h, lastSkippedPre = False, lastSkippedPost = False,
                 word = [], opts = options \<rparr>)"

definition generate :: "digest \<Rightarrow> string \<Rightarrow> PhoneticOptions \<Rightarrow> (error + string) option" where
  "generate md5 rnd options0 =
     map_option (map_sum id postProcess) (generate_wordObj md5 rnd options0)"

section \<open>An MD5 digest\<close>

text \<open>
  The digest the program is built with, for runs on concrete inputs: MD5 as RFC 1321
  defines it, on the bytes of a text of ASCII characters.
\<close>

definition md5_K :: "u32 list" where
  "md5_K =
    [0xd76aa478, 0xe8c7b756, 0x242070db, 0xc1bdceee, 0xf57c0faf, 0x4787c62a, 0xa8304613,
     0xfd469501, 0x698098d8, 0x8b44f7af, 0xffff5bb1, 0x895cd7be, 0x6b901122, 0xfd987193,
     0xa679438e, 0x49b40821, 0xf61e2562, 0xc040b340, 0x265e5a51, 0xe9b6c7aa, 0xd62f105d,
     0x02441453, 0xd8a1e681, 0xe7d3fbc8, 0x21e1cde6, 0xc33707d6, 0xf4d50d87, 0x455a14ed,
     0xa9e3e905, 0xfcefa3f8, 0x676f02d9, 0x8d2a4c8a, 0xfffa3942, 0x8771f681, 0x6d9d6122,
     0xfde5380c, 0xa4beea44, 0x4bdecfa9, 0xf6bb4b60, 0xbebfbc70, 0x289b7ec6, 0xeaa127fa,
     0xd4ef3085, 0x04881d05, 0xd9d4d039, 0xe6db99e5, 0x1fa27cf8, 0xc4ac5665, 0xf4292244,
     0x432aff97, 0xab9423a7, 0xfc93a039, 0x655b59c3, 0x8f0ccc92, 0xffeff47d, 0x85845dd1,
     0x6fa87e4f, 0xfe2ce6e0, 0xa3014314, 0x4e0811a1, 0xf7537e82, 0xbd3af235, 0x2ad7d2bb,
     0xeb86d391]"

definition md5_S :: "nat list" where
  "md5_S =
    [7, 12, 17, 22, 7, 12, 17, 22, 7, 12, 17, 22, 7, 12, 17, 22,
     5, 9, 14, 20, 5, 9, 14, 20, 5, 9, 14, 20, 5, 9, 14, 20,
     4, 11, 16, 23, 4, 11, 16, 23, 4, 11, 16, 23, 4, 11, 16, 23,
     6, 10, 15, 21, 6, 10, 15, 21, 6, 10, 15, 21, 6, 10, 15, 21]"

definition rotl :: "nat \<Rightarrow> u32 \<Rightarrow> u32" where
  "rotl n x = push_bit n x OR drop_bit (32 - n) x"

definition md5_F :: "nat \<Rightarrow> u32 \<Rightarrow> u32 \<Rightarrow> u32 \<Rightarrow> u32" where
  "md5_F i b c d =
     (if i < 16 then (b AND c) OR (NOT b AND d)
      else if i < 32 then (d AND b) OR (NOT d AND c)
      else if i < 48 then b XOR c XOR d
      else c XOR (b OR NOT d))"

definition md5_g :: "nat \<Rightarrow> nat" where
  "md5_g i =
     (if i < 16 then i
      else if i < 32 then (5 * i + 1) mod 16
      else if i < 48 then (3 * i + 5) mod 16
      else (7 * i) mod 16)"

type_synonym md5_state = "u32 \<times> u32 \<times> u32 \<times> u32"

definition md5_step :: "u32 list \<Rightarrow> md5_state \<Rightarrow> nat \<Rightarrow> md5_state" where
  "md5_step m st i =
     (case st of (a, b, c, d) \<Rightarrow>
        (d, b + rotl (md5_S ! i) (md5_F i b c d + a + md5_K ! i + m ! md5_g i), b, c))"

definition le_word :: "u8 list \<Rightarrow> u32" where
  "le_word bs = foldr (\<lambda>b w. push_bit 8 w + ucast b) bs 0"

fun chunks :: "nat \<Rightarrow> 'a list \<Rightarrow> 'a list list" where
  "chunks n [] = []"
| "chunks n xs = (if n = 0 then [xs] else take n xs # chunks n (drop n xs))"

definition md5_block :: "md5_state \<Rightarrow> u8 list \<Rightarrow> md5_state" where
  "md5_block st blk =
     (case st of (a0, b0, c0, d0) \<Rightarrow>
      case foldl (md5_step (map le_word (chunks 4 blk))) st [0..<64] of (a, b, c, d) \<Rightarrow>
        (a0 + a, b0 + b, c0 + c, d0 + d))"

definition le_bytes :: "nat \<Rightarrow> 'a::len word \<Rightarrow> u8 list" where
  "le_bytes k w = map (\<lambda>i. ucast (drop_bit (8 * i) w)) [0..<k]"

definition md5_pad :: "u8 list \<Rightarrow> u8 list" where
  "md5_pad bs =
     bs @ [0x80] @ replicate ((119 - length bs mod 64) mod 64) 0
        @ le_bytes 8 (of_nat (8 * length bs) :: 64 word)"

definition md5_bytes :: "u8 list \<Rightarrow> u8 list" where
  "md5_bytes bs =
     (case foldl md5_block (0x67452301, 0xefcdab89, 0x98badcfe, 0x10325476)
             (chunks 64 (md5_pad bs)) of
        (a, b, c, d) \<Rightarrow> concat (map (le_bytes 4) [a, b, c, d]))"

definition ascii_bytes :: "string \<Rightarrow> u8 list" where
  "ascii_bytes s = map (\<lambda>c. of_nat (of_char c)) s"

definition md5_digest :: digest where
  "md5_digest s = Some (md5_bytes (ascii_bytes s))"

section \<open>Predicates and reference functions of the properties\<close>

text \<open>The value of a byte sequence read as a little-endian number.\<close>

definition le_value :: "u8 list \<Rightarrow> nat" where
  "le_value bs = foldr (\<lambda>b n. unat b + 256 * n) bs 0"

text \<open>The hash as the specification words it: the sum of the four little-endian 32-bit
  words at the byte offsets 0, 4, 8 and 12 of the 16-byte digest.\<close>

definition numericHash_spec :: "u8 list \<Rightarrow> nat" where
  "numericHash_spec digest16 =
     sum_list (map (\<lambda>off. le_value (take 4 (drop off digest16))) [0, 4, 8, 12])"

text \<open>A digest that returns 16 bytes for every text, as MD5 does.\<close>

definition wf_digest :: "digest \<Rightarrow> bool" where
  "wf_digest md5 = (\<forall>s. \<exists>buf. md5 s = Some buf \<and> length buf = 16)"

text \<open>The numeric hash of a text under the MD5 digest.\<close>

definition md5_numeric :: "string \<Rightarrow> nat" where
  "md5_numeric data =
     numericHash_spec (md5_bytes (ascii_bytes (data @ ''-Phonetic'')))"

text \<open>A word that is a concatenation of entries of the three tables.\<close>

inductive frag_concat :: "string \<Rightarrow> bool" where
  frag_empty: "frag_concat []"
| frag_append:
    "frag_concat w \<Longrightarrow> f \<in> set PHONETIC_PRE \<union> set PHONETIC_MID \<union> set PHONETIC_POST
       \<Longrightarrow> frag_concat (w @ f)"

text \<open>The three (table, simple length) pairs \<^verbatim>\<open>addSyllable\<close> passes to \<^verbatim>\<open>getNextPhonetic\<close>.\<close>

definition tables :: "(string list \<times> nat) set" where
  "tables = {(PHONETIC_PRE, PHONETIC_PRE_SIMPLE_LENGTH),
             (PHONETIC_MID, PHONETIC_MID_SIMPLE_LENGTH),
             (PHONETIC_POST, PHONETIC_POST_SIMPLE_LENGTH)}"

text \<open>\<open>k\<close> invocations of \<^verbatim>\<open>addSyllable\<close> in a row, up to the first exception.\<close>

fun addSyllables :: "digest \<Rightarrow> nat \<Rightarrow> PhoneticWordObject \<Rightarrow> error + PhoneticWordObject" where
  "addSyllables md5 0 w = Inr w"
| "addSyllables md5 (Suc k) w =
     (case addSyllable md5 w of Inl e \<Rightarrow> Inl e | Inr w' \<Rightarrow> addSyllables md5 k w')"

text \<open>The word object with another \<^verbatim>\<open>capFirst\<close> option.\<close>

definition setCapFirst :: "bool option \<Rightarrow> PhoneticWordObject \<Rightarrow> PhoneticWordObject" where
  "setCapFirst b w = w\<lparr>opts := (opts w)\<lparr>capFirst := b\<rparr>\<rparr>"

text \<open>
  Replacing the first match only: the match is at the first start position, in the order
  \<open>0, 1, \<dots>, length s\<close>, at which the pattern matches at all; the text before the match and
  the text after it are kept as they are.
\<close>

definition first_match :: "regex \<Rightarrow> string \<Rightarrow> (nat \<times> nat \<times> captures) option" where
  "first_match r s =
     (case find (\<lambda>i. rmatch r s i (\<lambda>k. None) \<noteq> []) [0..<Suc (length s)] of
        None \<Rightarrow> None
      | Some i \<Rightarrow> Some (i, hd (rmatch r s i (\<lambda>k. None))))"

definition replace_first :: "regex \<Rightarrow> piece list \<Rightarrow> string \<Rightarrow> string" where
  "replace_first r t s =
     (case first_match r s of
        None \<Rightarrow> s
      | Some (i, j, cs) \<Rightarrow> take i s @ expand t cs @ drop j s)"

text \<open>The first character in upper case, the others as they are.\<close>

definition uppercase_first :: "string \<Rightarrow> string" where
  "uppercase_first s = (case s of [] \<Rightarrow> [] | c # cs \<Rightarrow> upper_char c # cs)"

text \<open>
  Post-processing as the specification words it: the eight pairs \<^verbatim>\<open>quu\<close> to \<^verbatim>\<open>que\<close>,
  \<^verbatim>\<open>qu([aeiou]){2}\<close> to \<^verbatim>\<open>qu$1\<close>, \<^verbatim>\<open>[iu]y\<close> to \<^verbatim>\<open>ey\<close>, \<^verbatim>\<open>eye\<close> to \<^verbatim>\<open>ye\<close>, \<^verbatim>\<open>(.)ye$\<close> to \<^verbatim>\<open>$1y\<close>,
  \<^verbatim>\<open>(^|e)cie(?!$)\<close> to \<^verbatim>\<open>$1cei\<close>, \<^verbatim>\<open>([vz])$\<close> to \<^verbatim>\<open>$1e\<close>, \<^verbatim>\<open>[iu]w\<close> to \<^verbatim>\<open>ow\<close>, one after the
  other, each on its first match, then the capital first letter when \<open>cap\<close> holds.
\<close>

definition postProcess_spec :: "string \<Rightarrow> bool \<Rightarrow> string" where
  "postProcess_spec w0 cap =
     (let w1 = replace_first (lit ''quu'') [Lit ''que''] w0;
          w2 = replace_first (Seq (lit ''qu'') (rep 2 (Grp 1 (Cls ''aeiou''))))
                 [Lit ''qu'', Ref 1] w1;
          w3 = replace_first (Seq (Cls ''iu'') (Chr CHR ''y'')) [Lit ''ey''] w2;
          w4 = replace_first (lit ''eye'') [Lit ''ye''] w3;
          w5 = replace_first (Seq (Grp 1 Dot) (Seq (lit ''ye'') Eol)) [Ref 1, Lit ''y''] w4;
          w6 = replace_first
                 (Seq (Grp 1 (Alt Bol (Chr CHR ''e''))) (Seq (lit ''cie'') (NegLook Eol)))
                 [Ref 1, Lit ''cei''] w5;
          w7 = replace_first (Seq (Grp 1 (Cls ''vz'')) Eol) [Ref 1, Lit ''e''] w6;
          w8 = replace_first (Seq (Cls ''iu'') (Chr CHR ''w'')) [Lit ''ow''] w7
      in if cap then uppercase_first w8 else w8)"

text \<open>The lower-case letters \<open>a\<close> to \<open>z\<close>.\<close>

definition lowercase :: "char \<Rightarrow> bool" where
  "lowercase c = (97 \<le> (of_char c :: nat) \<and> (of_char c :: nat) \<le> 122)"

text \<open>The syllable count and the seed of the resolved options, and the word object
  \<^verbatim>\<open>generate\<close> starts from.\<close>

definition resolved_syllables :: "PhoneticOptions \<Rightarrow> int" where
  "resolved_syllables opt =
     (case syllables opt of None \<Rightarrow> 3 | Some n \<Rightarrow> if n = 0 then 3 else n)"

definition resolved_seed :: "string \<Rightarrow> PhoneticOptions \<Rightarrow> string" where
  "resolved_seed rnd opt =
     (case seed opt of None \<Rightarrow> rnd | Some s \<Rightarrow> if s = [] then rnd else s)"

definition initial_wordObj :: "nat \<Rightarrow> PhoneticOptions \<Rightarrow> PhoneticWordObject" where
  "initial_wordObj h options =
     \<lparr> numeric = h, lastSkippedPre = False, lastSkippedPost = False, word = [],
       opts = options \<rparr>"

section \<open>Inputs of the concrete runs\<close>

text \<open>Two texts of the entropy source (16 bytes \<open>0x00\<close> and 16 bytes \<open>0x01\<close> in base64),
  options with an empty seed and with the seed \<open>x\<close>, and two word objects.\<close>

definition entropy_A :: string where
  "entropy_A = ''AAAAAAAAAAAAAAAAAAAAAA==''"

definition entropy_B :: string where
  "entropy_B = ''AQEBAQEBAQEBAQEBAQEBAQ==''"

definition options_empty_seed :: PhoneticOptions where
  "options_empty_seed =
     \<lparr> syllables = Some 1, seed = Some [], phoneticSimplicity = None,
       compoundSimplicity = None, capFirst = None \<rparr>"

definition options_x :: PhoneticOptions where
  "options_x =
     \<lparr> syllables = None, seed = Some ''x'', phoneticSimplicity = None,
       compoundSimplicity = None, capFirst = None \<rparr>"

definition wordObj_f :: PhoneticWordObject where
  "wordObj_f =
     \<lparr> numeric = 7192806399, lastSkippedPre = False, lastSkippedPost = False, word = ''f'',
       opts = getOptions entropy_A options_empty_seed \<rparr>"

definition wordObj_quu :: PhoneticWordObject where
  "wordObj_quu =
     \<lparr> numeric = 0, lastSkippedPre = False, lastSkippedPost = False, word = ''quuquuz'',
       opts = getOptions [] options_x \<rparr>"

section \<open>The numeric hash\<close>

lemma take4_drop:
  "off + 4 \<le> length bs \<Longrightarrow>
     take 4 (drop off bs) = [bs ! off, bs ! (off + 1), bs ! (off + 2), bs ! (off + 3)]"
  by (simp add: numeral_eq_Suc take_Suc_conv_app_nth)

lemma readUInt32LE_le_value:
  "off + 4 \<le> length bs \<Longrightarrow> readUInt32LE bs off = Inr (le_value (take 4 (drop off bs)))"
  by (simp add: take4_drop readUInt32LE_def le_value_def)

lemma le_value_bound: "le_value bs < 256 ^ length bs"
proof (induction bs)
  case Nil
  then show ?case by (simp add: le_value_def)
next
  case (Cons b bs)
  have "unat b < 256" using unsigned_less [of b, where ?'a = nat] by simp
  with Cons show ?case by (simp add: le_value_def)
qed

lemma getNumericHash_loop_16:
  assumes "length buf = 16"
  shows "getNumericHash_loop buf 0 0 = Inr (numericHash_spec buf)"
  using assms
  by (simp add: getNumericHash_loop.simps readUInt32LE_le_value numericHash_spec_def)

lemma numericHash_spec_bound:
  assumes "length buf = 16"
  shows "numericHash_spec buf < 2 ^ 34"
proof -
  have "le_value (take 4 (drop off buf)) < 2 ^ 32" if "off \<le> 12" for off
  proof -
    have "length (take 4 (drop off buf)) = 4" using assms that by simp
    then show ?thesis using le_value_bound [of "take 4 (drop off buf)"] by simp
  qed
  from this [of 0] this [of 4] this [of 8] this [of 12]
  show ?thesis by (simp add: numericHash_spec_def)
qed

lemma getNumericHash_wf:
  assumes "wf_digest md5"
  shows "\<exists>h. getNumericHash md5 data = Inr h \<and> h < 2 ^ 34"
proof -
  from assms obtain buf where b: "md5 (data @ ''-Phonetic'') = Some buf" "length buf = 16"
    unfolding wf_digest_def by blast
  then show ?thesis
    using numericHash_spec_bound [of buf]
    by (simp add: getNumericHash_def getNumericHash_loop_16)
qed

section \<open>Fragment selection and the syllable builder\<close>

lemma table_lengths:
  "length PHONETIC_PRE = 45" "length PHONETIC_MID = 10" "length PHONETIC_POST = 25"
  by (simp_all add: PHONETIC_PRE_def PHONETIC_MID_def PHONETIC_POST_def)

lemma phoneticCap_cases:
  "phoneticCap tbl sc w fs = sc \<or> phoneticCap tbl sc w fs = length tbl"
  by (simp add: phoneticCap_def Let_def)

lemma tables_cap:
  assumes "(tbl, sc) \<in> tables"
  shows "0 < sc" "sc \<le> length tbl"
  using assms
  by (auto simp: tables_def table_lengths PHONETIC_PRE_SIMPLE_LENGTH_def
      PHONETIC_MID_SIMPLE_LENGTH_def PHONETIC_POST_SIMPLE_LENGTH_def)

lemma phoneticCap_range:
  assumes "(tbl, sc) \<in> tables"
  shows "0 < phoneticCap tbl sc w fs \<and> phoneticCap tbl sc w fs \<le> length tbl"
  using tables_cap [OF assms] phoneticCap_cases [of tbl sc w fs] by auto

lemma selectPhonetic_in_bounds:
  assumes "(tbl, sc) \<in> tables"
  shows "numeric w mod phoneticCap tbl sc w fs < length tbl"
    and "selectPhonetic tbl sc w fs = Some (tbl ! (numeric w mod phoneticCap tbl sc w fs))"
proof -
  let ?cap = "phoneticCap tbl sc w fs"
  from phoneticCap_range [OF assms] have c: "0 < ?cap" "?cap \<le> length tbl" by auto
  then have "numeric w mod ?cap < ?cap" by simp
  with c show i: "numeric w mod ?cap < length tbl" by linarith
  from c i show "selectPhonetic tbl sc w fs = Some (tbl ! (numeric w mod ?cap))"
    by (simp add: selectPhonetic_def js_rem_def)
qed

lemma selectPhonetic_member:
  assumes "(tbl, sc) \<in> tables"
  shows "\<exists>f \<in> set tbl. selectPhonetic tbl sc w fs = Some f"
  using selectPhonetic_in_bounds [OF assms, of w fs] by (metis nth_mem)

lemma getNextPhonetic_Inr:
  "getNextPhonetic md5 tbl sc w fs = Inr (ph, w') \<Longrightarrow>
     ph = selectPhonetic tbl sc w fs
     \<and> Inr (numeric w') = getNumericHash md5 (decimal (numeric w) @ word w)
     \<and> w' = w\<lparr>numeric := numeric w'\<rparr>"
  by (auto simp: getNextPhonetic_def Let_def split: sum.splits)

lemma getNextPhonetic_wf:
  assumes "wf_digest md5"
  shows "\<exists>h. getNextPhonetic md5 tbl sc w fs = Inr (selectPhonetic tbl sc w fs, w\<lparr>numeric := h\<rparr>)"
  using getNumericHash_wf [OF assms, of "decimal (numeric w) @ word w"]
  by (auto simp: getNextPhonetic_def Let_def)


lemma tables_mem:
  "(PHONETIC_PRE, PHONETIC_PRE_SIMPLE_LENGTH) \<in> tables"
  "(PHONETIC_MID, PHONETIC_MID_SIMPLE_LENGTH) \<in> tables"
  "(PHONETIC_POST, PHONETIC_POST_SIMPLE_LENGTH) \<in> tables"
  by (simp_all add: tables_def)

lemma appendPhonetic_Inr:
  assumes t: "(tbl, sc) \<in> tables"
    and s: "\<And>b v. word (setSkipped b v) = word v \<and> opts (setSkipped b v) = opts v"
    and r: "appendPhonetic setSkipped (getNextPhonetic md5 tbl sc w fs) = Inr w'"
  shows "\<exists>f \<in> set tbl. word w' = word w @ f \<and> opts w' = opts w"
proof -
  from r obtain ph w1 where g: "getNextPhonetic md5 tbl sc w fs = Inr (ph, w1)"
    and w': "w' = setSkipped False (w1\<lparr>word := word w1 @ js_str ph\<rparr>)"
    by (auto simp: appendPhonetic_def split: sum.splits)
  from getNextPhonetic_Inr [OF g] have ph: "ph = selectPhonetic tbl sc w fs"
    and w1: "w1 = w\<lparr>numeric := numeric w1\<rparr>" by auto
  from selectPhonetic_member [OF t, of w fs] ph obtain f where f: "f \<in> set tbl" "ph = Some f"
    by auto
  have "word w1 = word w" "opts w1 = opts w" using w1 by (metis select_convs surjective update_convs)+
  with w' f s show ?thesis by (auto simp: js_str_def)
qed

lemma appendPhonetic_wf:
  assumes "wf_digest md5"
  shows "\<exists>w'. appendPhonetic setSkipped (getNextPhonetic md5 tbl sc w fs) = Inr w'"
  using getNextPhonetic_wf [OF assms, of tbl sc w fs] by (auto simp: appendPhonetic_def)

lemma addSyllable_Inr:
  assumes "addSyllable md5 w = Inr w'"
  shows "\<exists>pre \<in> insert [] (set PHONETIC_PRE). \<exists>mid \<in> set PHONETIC_MID.
           \<exists>post \<in> insert [] (set PHONETIC_POST).
           word w' = word w @ pre @ mid @ post \<and> opts w' = opts w"
proof -
  let ?c = "(word w = [] \<and> getDerivative (numeric w) mod 6 > 0) \<or> lastSkippedPost w
      \<or> js_rem (getDerivative (numeric w))
           (case compoundSimplicity (opts w) of None \<Rightarrow> 5 | Some c \<Rightarrow> c) = Some 0"
  let ?pre = "if ?c
     then appendPhonetic (\<lambda>b w. w\<lparr>lastSkippedPre := b\<rparr>)
            (getNextPhonetic md5 PHONETIC_PRE PHONETIC_PRE_SIMPLE_LENGTH w False)
     else Inr (w\<lparr>lastSkippedPre := True\<rparr>)"
  from assms obtain w1 where p: "?pre = Inr w1"
    by (auto simp: addSyllable_def Let_def split: sum.splits if_splits)
  with assms obtain w2 where
    m: "appendPhonetic (\<lambda>b w. w)
          (getNextPhonetic md5 PHONETIC_MID PHONETIC_MID_SIMPLE_LENGTH w1
             (word w = [] \<and> lastSkippedPre w1)) = Inr w2"
    by (auto simp: addSyllable_def Let_def split: sum.splits if_splits)
  from assms p m have q:
    "appendPhonetic (\<lambda>b w. w\<lparr>lastSkippedPost := b\<rparr>)
       (getNextPhonetic md5 PHONETIC_POST PHONETIC_POST_SIMPLE_LENGTH w2 False) = Inr w'
     \<or> w' = w2\<lparr>lastSkippedPost := True\<rparr>"
    by (auto simp: addSyllable_def Let_def split: sum.splits if_splits)
  have 1: "\<exists>pre \<in> insert [] (set PHONETIC_PRE). word w1 = word w @ pre \<and> opts w1 = opts w"
  proof (cases ?c)
    case True
    with p have "appendPhonetic (\<lambda>b w. w\<lparr>lastSkippedPre := b\<rparr>)
            (getNextPhonetic md5 PHONETIC_PRE PHONETIC_PRE_SIMPLE_LENGTH w False) = Inr w1"
      by simp
    from appendPhonetic_Inr [OF tables_mem(1) _ this] show ?thesis by auto
  next
    case False
    with p have "w1 = w\<lparr>lastSkippedPre := True\<rparr>" by simp
    then show ?thesis by simp
  qed
  from appendPhonetic_Inr [OF tables_mem(2) _ m]
  have 2: "\<exists>mid \<in> set PHONETIC_MID. word w2 = word w1 @ mid \<and> opts w2 = opts w1" by auto
  have 3: "\<exists>post \<in> insert [] (set PHONETIC_POST). word w' = word w2 @ post \<and> opts w' = opts w2"
    using q
  proof
    assume "appendPhonetic (\<lambda>b w. w\<lparr>lastSkippedPost := b\<rparr>)
       (getNextPhonetic md5 PHONETIC_POST PHONETIC_POST_SIMPLE_LENGTH w2 False) = Inr w'"
    from appendPhonetic_Inr [OF tables_mem(3) _ this] show ?thesis by auto
  next
    assume "w' = w2\<lparr>lastSkippedPost := True\<rparr>"
    then show ?thesis by simp
  qed
  from 1 2 3 show ?thesis by (metis append.assoc)
qed

lemma addSyllable_wf:
  assumes "wf_digest md5"
  shows "\<exists>w'. addSyllable md5 w = Inr w'"
proof -
  note a = appendPhonetic_wf [OF assms]
  let ?c = "(word w = [] \<and> getDerivative (numeric w) mod 6 > 0) \<or> lastSkippedPost w
      \<or> js_rem (getDerivative (numeric w))
           (case compoundSimplicity (opts w) of None \<Rightarrow> 5 | Some c \<Rightarrow> c) = Some 0"
  let ?pre = "if ?c
     then appendPhonetic (\<lambda>b w. w\<lparr>lastSkippedPre := b\<rparr>)
            (getNextPhonetic md5 PHONETIC_PRE PHONETIC_PRE_SIMPLE_LENGTH w False)
     else Inr (w\<lparr>lastSkippedPre := True\<rparr>)"
  obtain w1 where p: "?pre = Inr w1"
    using a [of "\<lambda>b w. w\<lparr>lastSkippedPre := b\<rparr>" PHONETIC_PRE PHONETIC_PRE_SIMPLE_LENGTH w False]
    by (cases ?c) auto
  obtain w2 where
    m: "appendPhonetic (\<lambda>b w. w)
          (getNextPhonetic md5 PHONETIC_MID PHONETIC_MID_SIMPLE_LENGTH w1
             (word w = [] \<and> lastSkippedPre w1)) = Inr w2"
    using a by blast
  obtain w3 where
    q: "appendPhonetic (\<lambda>b w. w\<lparr>lastSkippedPost := b\<rparr>)
       (getNextPhonetic md5 PHONETIC_POST PHONETIC_POST_SIMPLE_LENGTH w2 False) = Inr w3"
    using a by blast
  from p m q show ?thesis
    by (simp add: addSyllable_def Let_def)
qed

section \<open>The syllable loop\<close>

lemma syllable_loop_nat:
  "syllable_loop md5 (int k) w = Some (addSyllables md5 k w)"
proof (induction k arbitrary: w)
  case 0
  show ?case by (simp add: syllable_loop.simps)
next
  case (Suc k)
  have "int (Suc k) - 1 = int k" by simp
  with Suc show ?case
    by (subst syllable_loop.simps) (simp split: sum.splits)
qed

lemma syllable_loop_nonneg:
  "0 \<le> n \<Longrightarrow> syllable_loop md5 n w = Some (addSyllables md5 (nat n) w)"
  using syllable_loop_nat [of md5 "nat n" w] by simp

lemma syllable_loop_negative_aux:
  assumes "syllable_loop md5 n w = Some r"
  shows "wf_digest md5 \<longrightarrow> 0 \<le> n"
proof (rule syllable_loop.raw_induct
    [where P = "\<lambda>md5 n w r. wf_digest md5 \<longrightarrow> 0 \<le> n", OF _ assms], goal_cases)
  case (1 loop md5 n w r)
  show ?case
  proof
    assume wf: "wf_digest md5"
    show "0 \<le> n"
    proof (cases "n = 0")
      case True
      then show ?thesis by simp
    next
      case False
      from addSyllable_wf [OF wf, of w] obtain w' where a: "addSyllable md5 w = Inr w'" ..
      with False 1(2) have "loop md5 (n - 1) w' = Some r" by simp
      from 1(1) [OF this] wf show ?thesis by simp
    qed
  qed
qed

lemma syllable_loop_negative:
  assumes "wf_digest md5" and "n < 0"
  shows "syllable_loop md5 n w = None"
proof (cases "syllable_loop md5 n w")
  case None
  then show ?thesis .
next
  case (Some r)
  from syllable_loop_negative_aux [OF this] assms show ?thesis by simp
qed


lemma syllable_loop_Inr_nonneg:
  assumes "syllable_loop md5 n w = Some r"
  shows "\<forall>w'. r = Inr w' \<longrightarrow> 0 \<le> n"
proof (rule syllable_loop.raw_induct
    [where P = "\<lambda>md5 n w r. \<forall>w'. r = Inr w' \<longrightarrow> 0 \<le> n", OF _ assms], goal_cases)
  case (1 loop md5 n w r)
  show ?case
  proof (cases "n = 0")
    case True
    then show ?thesis by simp
  next
    case False
    show ?thesis
    proof (cases "addSyllable md5 w")
      case (Inl e)
      with False 1(2) show ?thesis by auto
    next
      case (Inr w1)
      with False 1(2) have "loop md5 (n - 1) w1 = Some r" by simp
      from 1(1) [OF this] show ?thesis by auto
    qed
  qed
qed

lemma syllable_loop_Inr:
  assumes "syllable_loop md5 n w = Some (Inr w')"
  shows "0 \<le> n \<and> addSyllables md5 (nat n) w = Inr w'"
proof -
  from syllable_loop_Inr_nonneg [OF assms] have n: "0 \<le> n" by simp
  with assms syllable_loop_nonneg [OF n, of md5 w] show ?thesis by simp
qed

lemma frag_concat_append:
  "frag_concat v \<Longrightarrow> frag_concat u \<Longrightarrow> frag_concat (u @ v)"
proof (induction v rule: frag_concat.induct)
  case frag_empty
  then show ?case by simp
next
  case (frag_append w f)
  from frag_append.IH [OF frag_append.prems] frag_append.hyps(2)
  have "frag_concat ((u @ w) @ f)" by (rule frag_concat.frag_append)
  then show ?case by simp
qed

lemma frag_concat_single:
  "f \<in> set PHONETIC_PRE \<union> set PHONETIC_MID \<union> set PHONETIC_POST \<Longrightarrow> frag_concat f"
  using frag_concat.frag_append [OF frag_empty, of f] by simp

lemma addSyllable_frag_concat:
  assumes "addSyllable md5 w = Inr w'" and "frag_concat (word w)"
  shows "frag_concat (word w')"
proof -
  from addSyllable_Inr [OF assms(1)] obtain pre mid post where
    p: "pre \<in> insert [] (set PHONETIC_PRE)" and m: "mid \<in> set PHONETIC_MID"
    and q: "post \<in> insert [] (set PHONETIC_POST)" and w: "word w' = word w @ pre @ mid @ post"
    by blast
  from p have "frag_concat pre" by (auto intro: frag_empty frag_concat_single)
  moreover from m have "frag_concat mid" by (auto intro: frag_concat_single)
  moreover from q have "frag_concat post" by (auto intro: frag_empty frag_concat_single)
  ultimately show ?thesis using assms(2) w by (simp add: frag_concat_append)
qed

lemma addSyllables_frag_concat:
  "addSyllables md5 k w = Inr w' \<Longrightarrow> frag_concat (word w) \<Longrightarrow> frag_concat (word w')"
proof (induction k arbitrary: w)
  case 0
  then show ?case by simp
next
  case (Suc k)
  from Suc.prems(1) obtain w1 where a: "addSyllable md5 w = Inr w1"
    and r: "addSyllables md5 k w1 = Inr w'"
    by (auto split: sum.splits)
  from addSyllable_frag_concat [OF a Suc.prems(2)] Suc.IH [OF r] show ?case by simp
qed

lemma addSyllables_opts:
  "addSyllables md5 k w = Inr w' \<Longrightarrow> opts w' = opts w"
proof (induction k arbitrary: w)
  case 0
  then show ?case by simp
next
  case (Suc k)
  from Suc.prems(1) obtain w1 where a: "addSyllable md5 w = Inr w1"
    and r: "addSyllables md5 k w1 = Inr w'"
    by (auto split: sum.splits)
  from addSyllable_Inr [OF a] Suc.IH [OF r] show ?case by auto
qed

lemma mid_nonempty: "mid \<in> set PHONETIC_MID \<Longrightarrow> mid \<noteq> []"
  by (auto simp: PHONETIC_MID_def)

lemma addSyllable_grows:
  assumes "addSyllable md5 w = Inr w'"
  shows "length (word w) < length (word w')"
proof -
  from addSyllable_Inr [OF assms] obtain pre mid post where
    m: "mid \<in> set PHONETIC_MID" and w: "word w' = word w @ pre @ mid @ post"
    by blast
  from mid_nonempty [OF m] w show ?thesis by simp
qed

lemma addSyllables_grows:
  "addSyllables md5 k w = Inr w' \<Longrightarrow> length (word w) + k \<le> length (word w')"
proof (induction k arbitrary: w)
  case 0
  then show ?case by simp
next
  case (Suc k)
  from Suc.prems(1) obtain w1 where a: "addSyllable md5 w = Inr w1"
    and r: "addSyllables md5 k w1 = Inr w'"
    by (auto split: sum.splits)
  from addSyllable_grows [OF a] Suc.IH [OF r] show ?case by simp
qed

lemma addSyllables_wf:
  assumes "wf_digest md5"
  shows "\<exists>w'. addSyllables md5 k w = Inr w'"
proof (induction k arbitrary: w)
  case 0
  show ?case by simp
next
  case (Suc k)
  from addSyllable_wf [OF assms, of w] obtain w1 where "addSyllable md5 w = Inr w1" ..
  with Suc [of w1] show ?case by simp
qed

section \<open>Independence of the capFirst option\<close>

lemma setCapFirst_simps:
  "numeric (setCapFirst b w) = numeric w"
  "word (setCapFirst b w) = word w"
  "lastSkippedPre (setCapFirst b w) = lastSkippedPre w"
  "lastSkippedPost (setCapFirst b w) = lastSkippedPost w"
  "phoneticSimplicity (opts (setCapFirst b w)) = phoneticSimplicity (opts w)"
  "compoundSimplicity (opts (setCapFirst b w)) = compoundSimplicity (opts w)"
  "capFirst (opts (setCapFirst b w)) = b"
  "setCapFirst b (setCapFirst c w) = setCapFirst b w"
  "(setCapFirst b w)\<lparr>numeric := h\<rparr> = setCapFirst b (w\<lparr>numeric := h\<rparr>)"
  "(setCapFirst b w)\<lparr>word := s\<rparr> = setCapFirst b (w\<lparr>word := s\<rparr>)"
  "(setCapFirst b w)\<lparr>lastSkippedPre := p\<rparr> = setCapFirst b (w\<lparr>lastSkippedPre := p\<rparr>)"
  "(setCapFirst b w)\<lparr>lastSkippedPost := p\<rparr> = setCapFirst b (w\<lparr>lastSkippedPost := p\<rparr>)"
  by (simp_all add: setCapFirst_def)

lemma selectPhonetic_setCapFirst:
  "selectPhonetic tbl sc (setCapFirst b w) fs = selectPhonetic tbl sc w fs"
  by (simp add: selectPhonetic_def phoneticCap_def setCapFirst_simps)

lemma getNextPhonetic_setCapFirst:
  "getNextPhonetic md5 tbl sc (setCapFirst b w) fs =
     map_sum id (map_prod id (setCapFirst b)) (getNextPhonetic md5 tbl sc w fs)"
  by (simp add: getNextPhonetic_def selectPhonetic_setCapFirst setCapFirst_simps Let_def
      split: sum.splits)

lemma appendPhonetic_setCapFirst:
  assumes "\<And>p v. setSkipped p (setCapFirst b v) = setCapFirst b (setSkipped p v)"
  shows "appendPhonetic setSkipped (map_sum id (map_prod id (setCapFirst b)) r) =
     map_sum id (setCapFirst b) (appendPhonetic setSkipped r)"
  using assms by (simp add: appendPhonetic_def setCapFirst_simps split: sum.splits prod.splits)

lemma addSyllable_setCapFirst:
  "addSyllable md5 (setCapFirst b w) = map_sum id (setCapFirst b) (addSyllable md5 w)"
proof -
  have 1: "appendPhonetic (\<lambda>p v. v\<lparr>lastSkippedPre := p\<rparr>)
             (map_sum id (map_prod id (setCapFirst b)) r) =
           map_sum id (setCapFirst b) (appendPhonetic (\<lambda>p v. v\<lparr>lastSkippedPre := p\<rparr>) r)" for r
    by (rule appendPhonetic_setCapFirst) (simp add: setCapFirst_simps)
  have 2: "appendPhonetic (\<lambda>p v. v)
             (map_sum id (map_prod id (setCapFirst b)) r) =
           map_sum id (setCapFirst b) (appendPhonetic (\<lambda>p v. v) r)" for r
    by (rule appendPhonetic_setCapFirst) (simp add: setCapFirst_simps)
  have 3: "appendPhonetic (\<lambda>p v. v\<lparr>lastSkippedPost := p\<rparr>)
             (map_sum id (map_prod id (setCapFirst b)) r) =
           map_sum id (setCapFirst b) (appendPhonetic (\<lambda>p v. v\<lparr>lastSkippedPost := p\<rparr>) r)" for r
    by (rule appendPhonetic_setCapFirst) (simp add: setCapFirst_simps)
  let ?c = "(word w = [] \<and> getDerivative (numeric w) mod 6 > 0) \<or> lastSkippedPost w
      \<or> js_rem (getDerivative (numeric w))
           (case compoundSimplicity (opts w) of None \<Rightarrow> 5 | Some c \<Rightarrow> c) = Some 0"
  let ?pre = "\<lambda>w. if ?c
     then appendPhonetic (\<lambda>b w. w\<lparr>lastSkippedPre := b\<rparr>)
            (getNextPhonetic md5 PHONETIC_PRE PHONETIC_PRE_SIMPLE_LENGTH w False)
     else Inr (w\<lparr>lastSkippedPre := True\<rparr>)"
  let ?mid = "\<lambda>w1. appendPhonetic (\<lambda>b w. w)
          (getNextPhonetic md5 PHONETIC_MID PHONETIC_MID_SIMPLE_LENGTH w1
             (word w = [] \<and> lastSkippedPre w1))"
  let ?post = "\<lambda>w2. if lastSkippedPre w2 \<or> js_rem (getDerivative (numeric w))
           (case compoundSimplicity (opts w) of None \<Rightarrow> 5 | Some c \<Rightarrow> c) = Some 0
       then appendPhonetic (\<lambda>b w. w\<lparr>lastSkippedPost := b\<rparr>)
              (getNextPhonetic md5 PHONETIC_POST PHONETIC_POST_SIMPLE_LENGTH w2 False)
       else Inr (w2\<lparr>lastSkippedPost := True\<rparr>)"
  have p: "?pre (setCapFirst b w) = map_sum id (setCapFirst b) (?pre w)"
    by (simp add: getNextPhonetic_setCapFirst setCapFirst_simps 1)
  have m: "?mid (setCapFirst b w1) = map_sum id (setCapFirst b) (?mid w1)" for w1
    by (simp add: getNextPhonetic_setCapFirst setCapFirst_simps 2)
  have q: "?post (setCapFirst b w2) = map_sum id (setCapFirst b) (?post w2)" for w2
    by (simp add: getNextPhonetic_setCapFirst setCapFirst_simps 3)
  have l: "addSyllable md5 (setCapFirst b w) =
     (case ?pre (setCapFirst b w) of Inl e \<Rightarrow> Inl e
      | Inr w1 \<Rightarrow> (case ?mid w1 of Inl e \<Rightarrow> Inl e | Inr w2 \<Rightarrow> ?post w2))"
    by (simp add: addSyllable_def Let_def setCapFirst_simps)
  have r: "addSyllable md5 w =
     (case ?pre w of Inl e \<Rightarrow> Inl e
      | Inr w1 \<Rightarrow> (case ?mid w1 of Inl e \<Rightarrow> Inl e | Inr w2 \<Rightarrow> ?post w2))"
    by (simp add: addSyllable_def Let_def)
  show ?thesis
  proof (cases "?pre w")
    case (Inl e)
    with p l r show ?thesis by simp
  next
    case w1: (Inr w1)
    show ?thesis
    proof (cases "?mid w1")
      case (Inl e)
      with w1 p m [of w1] l r show ?thesis by simp
    next
      case (Inr w2)
      with w1 p m [of w1] q [of w2] l r show ?thesis by simp
    qed
  qed
qed

lemma syllable_loop_setCapFirst_aux:
  assumes "syllable_loop md5 n w = Some r"
  shows "syllable_loop md5 n (setCapFirst b w) = Some (map_sum id (setCapFirst b) r)"
proof (rule syllable_loop.raw_induct
    [where P = "\<lambda>md5 n w r.
       syllable_loop md5 n (setCapFirst b w) = Some (map_sum id (setCapFirst b) r)",
     OF _ assms], goal_cases)
  case (1 loop md5 n w r)
  show ?case
  proof (cases "n = 0")
    case True
    with 1(2) show ?thesis by (auto simp: syllable_loop.simps)
  next
    case False
    show ?thesis
    proof (cases "addSyllable md5 w")
      case (Inl e)
      with False 1(2) show ?thesis
        by (subst syllable_loop.simps) (auto simp: addSyllable_setCapFirst)
    next
      case (Inr w1)
      with False 1(2) have "loop md5 (n - 1) w1 = Some r" by simp
      from 1(1) [OF this] False Inr show ?thesis
        by (subst syllable_loop.simps) (simp add: addSyllable_setCapFirst)
    qed
  qed
qed

lemma syllable_loop_setCapFirst:
  "syllable_loop md5 n (setCapFirst b (setCapFirst c w)) =
     map_option (map_sum id (setCapFirst b)) (syllable_loop md5 n (setCapFirst c w))"
proof (cases "syllable_loop md5 n (setCapFirst c w)")
  case (Some r)
  from syllable_loop_setCapFirst_aux [OF this, of b] Some show ?thesis
    by (simp add: setCapFirst_simps)
next
  case None
  have "syllable_loop md5 n (setCapFirst b w) = None"
  proof (cases "syllable_loop md5 n (setCapFirst b w)")
    case (Some r)
    from syllable_loop_setCapFirst_aux [OF this, of c] None show ?thesis
      by (simp add: setCapFirst_simps)
  qed simp
  with None show ?thesis by (simp add: setCapFirst_simps)
qed

section \<open>Post-processing\<close>

lemma regex_exec_find:
  assumes "i \<le> Suc (length s)"
  shows "regex_exec r s i =
     (case find (\<lambda>i. rmatch r s i (\<lambda>k. None) \<noteq> []) [i..<Suc (length s)] of
        None \<Rightarrow> None
      | Some i \<Rightarrow> Some (i, hd (rmatch r s i (\<lambda>k. None))))"
  using assms
proof (induction "Suc (length s) - i" arbitrary: i)
  case 0
  then have "i = Suc (length s)" by simp
  then show ?case by (simp add: regex_exec.simps)
next
  case (Suc d)
  then have i: "i \<le> length s" by simp
  then have u: "[i..<Suc (length s)] = i # [Suc i..<Suc (length s)]"
    by (simp add: upt_conv_Cons)
  show ?case
  proof (cases "rmatch r s i (\<lambda>k. None)")
    case Nil
    from Suc.hyps(2) have "d = Suc (length s) - Suc i" by simp
    then have "regex_exec r s (Suc i) =
     (case find (\<lambda>i. rmatch r s i (\<lambda>k. None) \<noteq> []) [Suc i..<Suc (length s)] of
        None \<Rightarrow> None
      | Some i \<Rightarrow> Some (i, hd (rmatch r s i (\<lambda>k. None))))"
      using i by (intro Suc.hyps(1)) auto
    with Nil i show ?thesis by (subst regex_exec.simps) (simp only: u, simp)
  next
    case (Cons m ms)
    with i show ?thesis
      by (subst regex_exec.simps) (simp only: u, simp split: prod.splits)
  qed
qed

lemma regex_exec_first_match: "regex_exec r s 0 = first_match r s"
  using regex_exec_find [of 0 s r] by (simp add: first_match_def)

lemma js_replace_first: "js_replace r t s = replace_first r t s"
  by (simp add: js_replace_def replace_first_def regex_exec_first_match)

lemma capFirst_str_uppercase_first: "capFirst_str s = uppercase_first s"
  by (cases s) (simp_all add: capFirst_str_def uppercase_first_def toUpperCase_def)

text \<open>Some matches of the eight patterns, among them a group under \<^verbatim>\<open>{2}\<close>, the two
  anchors and the lookahead.\<close>

lemma replacement_examples:
  "js_replace (lit ''quu'') [Lit ''que''] ''quuquu'' = ''quequu''"
  "js_replace (Seq (lit ''qu'') (rep 2 (Grp 1 (Cls ''aeiou'')))) [Lit ''qu'', Ref 1] ''quaeb'' = ''queb''"
  "js_replace (Seq (Cls ''iu'') (Chr CHR ''y'')) [Lit ''ey''] ''biyuy'' = ''beyuy''"
  "js_replace (lit ''eye'') [Lit ''ye''] ''eyeye'' = ''yeye''"
  "js_replace (Seq (Grp 1 Dot) (Seq (lit ''ye'') Eol)) [Ref 1, Lit ''y''] ''byebye'' = ''byeby''"
  "js_replace (Seq (Grp 1 Dot) (Seq (lit ''ye'') Eol)) [Ref 1, Lit ''y''] ''ye'' = ''ye''"
  "js_replace (Seq (Grp 1 (Alt Bol (Chr CHR ''e''))) (Seq (lit ''cie'') (NegLook Eol)))
     [Ref 1, Lit ''cei''] ''cien'' = ''cein''"
  "js_replace (Seq (Grp 1 (Alt Bol (Chr CHR ''e''))) (Seq (lit ''cie'') (NegLook Eol)))
     [Ref 1, Lit ''cei''] ''beciel'' = ''beceil''"
  "js_replace (Seq (Grp 1 (Alt Bol (Chr CHR ''e''))) (Seq (lit ''cie'') (NegLook Eol)))
     [Ref 1, Lit ''cei''] ''bciel'' = ''bciel''"
  "js_replace (Seq (Grp 1 (Alt Bol (Chr CHR ''e''))) (Seq (lit ''cie'') (NegLook Eol)))
     [Ref 1, Lit ''cei''] ''cie'' = ''cie''"
  "js_replace (Seq (Grp 1 (Cls ''vz'')) Eol) [Ref 1, Lit ''e''] ''vaz'' = ''vaze''"
  "js_replace (Seq (Cls ''iu'') (Chr CHR ''w'')) [Lit ''ow''] ''iwuw'' = ''owuw''"
  by code_simp+

section \<open>The characters of a word\<close>

text \<open>
  A word built from the tables holds lower-case letters only, and so does the word after
  the replacements: \<open>upper_char\<close> is \<^verbatim>\<open>toUpperCase\<close> on every character it is applied to.
\<close>

lemma rmatch_captures:
  assumes "(j, cs') \<in> set (rmatch r s i cs)"
    and "\<forall>k v. cs k = Some v \<longrightarrow> set v \<subseteq> set s"
  shows "\<forall>k v. cs' k = Some v \<longrightarrow> set v \<subseteq> set s"
  using assms
proof (induction r arbitrary: i j cs cs')
  case (Seq a b)
  from Seq.prems(1) obtain k ck where a: "(k, ck) \<in> set (rmatch a s i cs)"
    and b: "(j, cs') \<in> set (rmatch b s k ck)" by auto
  from Seq.IH(2) [OF b Seq.IH(1) [OF a Seq.prems(2)]] show ?case .
next
  case (Grp n a)
  from Grp.prems(1) obtain c0 where a: "(j, c0) \<in> set (rmatch a s i cs)"
    and c: "cs' = c0(n \<mapsto> take (j - i) (drop i s))" by auto
  from Grp.IH [OF a Grp.prems(2)] have "\<forall>k v. c0 k = Some v \<longrightarrow> set v \<subseteq> set s" .
  moreover have "set (take (j - i) (drop i s)) \<subseteq> set s"
    by (meson set_take_subset set_drop_subset subset_trans)
  ultimately show ?case using c by auto
next
  case (Alt a b)
  from Alt.prems(1) have "(j, cs') \<in> set (rmatch a s i cs) \<or> (j, cs') \<in> set (rmatch b s i cs)"
    by simp
  then show ?case
  proof
    assume "(j, cs') \<in> set (rmatch a s i cs)"
    from Alt.IH(1) [OF this Alt.prems(2)] show ?thesis .
  next
    assume "(j, cs') \<in> set (rmatch b s i cs)"
    from Alt.IH(2) [OF this Alt.prems(2)] show ?thesis .
  qed
next
  case (NegLook a)
  from NegLook.prems show ?case by (simp split: list.splits)
qed (simp_all split: if_splits)

lemma regex_exec_captures:
  assumes "regex_exec r s i = Some (a, b, cs)"
  shows "\<forall>k v. cs k = Some v \<longrightarrow> set v \<subseteq> set s"
  using assms
proof (induction r s i rule: regex_exec.induct)
  case (1 r s i)
  show ?case
  proof (cases "rmatch r s i (\<lambda>k. None)")
    case Nil
    with 1 show ?thesis by (subst (asm) (2) regex_exec.simps) (auto split: if_splits)
  next
    case (Cons m ms)
    with "1.prems" have "m = (b, cs)"
      by (subst (asm) regex_exec.simps) (auto split: if_splits)
    with Cons have "(b, cs) \<in> set (rmatch r s i (\<lambda>k. None))" by simp
    from rmatch_captures [OF this] show ?thesis by simp
  qed
qed

lemma expand_chars:
  assumes "\<forall>k v. cs k = Some v \<longrightarrow> set v \<subseteq> A" and "\<forall>l. Lit l \<in> set t \<longrightarrow> set l \<subseteq> A"
  shows "set (expand t cs) \<subseteq> A"
proof
  fix c
  assume "c \<in> set (expand t cs)"
  then obtain p where p: "p \<in> set t"
    and c: "c \<in> set (case p of Lit x \<Rightarrow> x | Ref k \<Rightarrow> (case cs k of None \<Rightarrow> [] | Some v \<Rightarrow> v))"
    by (auto simp: expand_def)
  show "c \<in> A"
  proof (cases p)
    case (Lit l)
    with p c assms(2) show ?thesis by auto
  next
    case (Ref k)
    with c assms(1) show ?thesis by (cases "cs k") auto
  qed
qed

lemma js_replace_chars:
  assumes "set s \<subseteq> A" and "\<forall>l. Lit l \<in> set t \<longrightarrow> set l \<subseteq> A"
  shows "set (js_replace r t s) \<subseteq> A"
proof (cases "regex_exec r s 0")
  case None
  with assms show ?thesis by (simp add: js_replace_def)
next
  case (Some m)
  obtain i j cs where m: "m = (i, j, cs)" by (cases m)
  from regex_exec_captures Some m assms(1)
  have "\<forall>k v. cs k = Some v \<longrightarrow> set v \<subseteq> A" by blast
  from expand_chars [OF this assms(2)] have "set (expand t cs) \<subseteq> A" .
  moreover have "set (take i s) \<subseteq> A" "set (drop j s) \<subseteq> A"
    using assms(1) by (meson set_take_subset set_drop_subset subset_trans)+
  ultimately show ?thesis using Some m by (simp add: js_replace_def)
qed

lemma REPLACEMENTS_lowercase:
  "\<forall>(r, t) \<in> set REPLACEMENTS. \<forall>l. Lit l \<in> set t \<longrightarrow> set l \<subseteq> Collect lowercase"
  by (auto simp: REPLACEMENTS_def lowercase_def)

lemma foldl_js_replace_chars:
  assumes "\<forall>(r, t) \<in> set rs. \<forall>l. Lit l \<in> set t \<longrightarrow> set l \<subseteq> A" and "set s \<subseteq> A"
  shows "set (foldl (\<lambda>w (regex, replacement). js_replace regex replacement w) s rs) \<subseteq> A"
  using assms
proof (induction rs arbitrary: s)
  case Nil
  then show ?case by simp
next
  case (Cons p rs)
  obtain r t where p: "p = (r, t)" by (cases p)
  with Cons.prems have "\<forall>l. Lit l \<in> set t \<longrightarrow> set l \<subseteq> A" by auto
  from js_replace_chars [OF Cons.prems(2) this] have "set (js_replace r t s) \<subseteq> A" .
  with Cons p show ?case by simp
qed

lemma table_lowercase:
  "f \<in> set PHONETIC_PRE \<union> set PHONETIC_MID \<union> set PHONETIC_POST \<Longrightarrow> set f \<subseteq> Collect lowercase"
  by (auto simp: PHONETIC_PRE_def PHONETIC_MID_def PHONETIC_POST_def lowercase_def)

lemma frag_concat_lowercase: "frag_concat w \<Longrightarrow> set w \<subseteq> Collect lowercase"
proof (induction rule: frag_concat.induct)
  case frag_empty
  show ?case by simp
next
  case (frag_append w f)
  with table_lowercase [of f] show ?case by simp
qed

lemma replaced_word_lowercase:
  assumes "frag_concat w"
  shows "set (foldl (\<lambda>w (regex, replacement). js_replace regex replacement w) w REPLACEMENTS)
           \<subseteq> Collect lowercase"
  using foldl_js_replace_chars [OF REPLACEMENTS_lowercase frag_concat_lowercase [OF assms]] .

section \<open>Option resolution and the generator\<close>

lemma expand_nonempty:
  assumes "Lit l \<in> set t" and "l \<noteq> []"
  shows "expand t cs \<noteq> []"
proof -
  from assms(1) obtain t1 t2 where "t = t1 @ Lit l # t2" by (auto simp: in_set_conv_decomp)
  with assms(2) show ?thesis by (simp add: expand_def)
qed

lemma js_replace_nonempty:
  assumes "s \<noteq> []" and "Lit l \<in> set t" and "l \<noteq> []"
  shows "js_replace r t s \<noteq> []"
  using assms(1) expand_nonempty [OF assms(2,3)]
  by (simp add: js_replace_def split: option.splits)

lemma REPLACEMENTS_literal:
  "\<forall>(r, t) \<in> set REPLACEMENTS. \<exists>l. Lit l \<in> set t \<and> l \<noteq> []"
  by (simp add: REPLACEMENTS_def)

lemma foldl_js_replace_nonempty:
  assumes "\<forall>(r, t) \<in> set rs. \<exists>l. Lit l \<in> set t \<and> l \<noteq> []" and "s \<noteq> []"
  shows "foldl (\<lambda>w (regex, replacement). js_replace regex replacement w) s rs \<noteq> []"
  using assms
proof (induction rs arbitrary: s)
  case Nil
  then show ?case by simp
next
  case (Cons p rs)
  obtain r t where p: "p = (r, t)" by (cases p)
  with Cons.prems obtain l where "Lit l \<in> set t" "l \<noteq> []" by auto
  from js_replace_nonempty [OF Cons.prems(2) this] have "js_replace r t s \<noteq> []" .
  with Cons p show ?case by simp
qed

lemma capFirst_str_nonempty: "s \<noteq> [] \<Longrightarrow> capFirst_str s \<noteq> []"
  by (cases s) (simp_all add: capFirst_str_def toUpperCase_def)

lemma postProcess_nonempty: "word w \<noteq> [] \<Longrightarrow> postProcess w \<noteq> []"
  using foldl_js_replace_nonempty [OF REPLACEMENTS_literal, of "word w"]
  by (simp add: postProcess_def Let_def capFirst_str_nonempty)

lemma getOptions_syllables:
  "syllables (getOptions rnd opt) =
     Some (case syllables opt of None \<Rightarrow> 3 | Some n \<Rightarrow> if n = 0 then 3 else n)"
  by (simp add: getOptions_def)

lemma getOptions_seed:
  "seed opt = Some s \<Longrightarrow> s \<noteq> [] \<Longrightarrow> getOptions rnd opt = getOptions rnd' opt"
  by (simp add: getOptions_def)

lemma getOptions_idem: "getOptions rnd (getOptions rnd opt) = getOptions rnd opt"
  by (auto simp: getOptions_def max_def split: option.splits)

lemma getOptions_capFirst:
  "getOptions rnd (opt\<lparr>capFirst := Some b\<rparr>) = (getOptions rnd opt)\<lparr>capFirst := Some b\<rparr>"
  by (simp add: getOptions_def)

lemma resolved_syllables_nonzero: "resolved_syllables opt \<noteq> 0"
  by (simp add: resolved_syllables_def split: option.splits)

lemma getOptions_resolved:
  "syllables (getOptions rnd opt) = Some (resolved_syllables opt)"
  "seed (getOptions rnd opt) = Some (resolved_seed rnd opt)"
  by (simp_all add: getOptions_def resolved_syllables_def resolved_seed_def)

lemma generate_wordObj_unfold:
  "generate_wordObj md5 rnd opt =
     (case getNumericHash md5 (resolved_seed rnd opt) of
        Inl e \<Rightarrow> Some (Inl e)
      | Inr h \<Rightarrow> syllable_loop md5 (resolved_syllables opt)
                   (initial_wordObj h (getOptions rnd opt)))"
  by (simp add: generate_wordObj_def Let_def getOptions_resolved resolved_syllables_nonzero
      initial_wordObj_def split: sum.splits)

lemma generate_wordObj_wf:
  assumes "wf_digest md5"
  shows "\<exists>h. getNumericHash md5 (resolved_seed rnd opt) = Inr h \<and>
          generate_wordObj md5 rnd opt =
            syllable_loop md5 (resolved_syllables opt) (initial_wordObj h (getOptions rnd opt))"
  using getNumericHash_wf [OF assms, of "resolved_seed rnd opt"]
  by (auto simp: generate_wordObj_unfold)

lemma generate_wordObj_positive:
  assumes "wf_digest md5" and "0 \<le> resolved_syllables opt"
  shows "\<exists>h w. getNumericHash md5 (resolved_seed rnd opt) = Inr h \<and>
          addSyllables md5 (nat (resolved_syllables opt))
             (initial_wordObj h (getOptions rnd opt)) = Inr w \<and>
          generate_wordObj md5 rnd opt = Some (Inr w) \<and> word w \<noteq> []"
proof -
  from generate_wordObj_wf [OF assms(1), of rnd opt] obtain h where
    h: "getNumericHash md5 (resolved_seed rnd opt) = Inr h" and
    g: "generate_wordObj md5 rnd opt =
          syllable_loop md5 (resolved_syllables opt) (initial_wordObj h (getOptions rnd opt))"
    by blast
  let ?w0 = "initial_wordObj h (getOptions rnd opt)"
  let ?k = "nat (resolved_syllables opt)"
  from addSyllables_wf [OF assms(1), of ?k ?w0] obtain w where
    w: "addSyllables md5 ?k ?w0 = Inr w" ..
  from assms(2) resolved_syllables_nonzero [of opt] have "0 < ?k" by simp
  with addSyllables_grows [OF w] have "word w \<noteq> []" by auto
  with h g w syllable_loop_nonneg [OF assms(2), of md5 ?w0] show ?thesis by simp
qed

lemma generate_wordObj_negative:
  assumes "wf_digest md5" and "resolved_syllables opt < 0"
  shows "generate_wordObj md5 rnd opt = None"
  using generate_wordObj_wf [OF assms(1), of rnd opt] syllable_loop_negative [OF assms]
  by auto

lemma md5_bytes_length: "length (md5_bytes bs) = 16"
  by (simp add: md5_bytes_def le_bytes_def split: prod.splits)

lemma wf_md5_digest: "wf_digest md5_digest"
  by (simp add: wf_digest_def md5_digest_def md5_bytes_length)

lemma getNumericHash_md5: "getNumericHash md5_digest data = Inr (md5_numeric data)"
  by (simp add: getNumericHash_def md5_digest_def getNumericHash_loop_16 md5_bytes_length
      md5_numeric_def)

section \<open>Runs on concrete inputs\<close>

text \<open>The digest of \<open>abc\<close> in the test suite of RFC 1321:
  \<open>900150983cd24fb0d6963f7d28e17f72\<close>.\<close>

lemma md5_bytes_abc:
  "md5_bytes (ascii_bytes ''abc'') =
     [0x90, 0x01, 0x50, 0x98, 0x3c, 0xd2, 0x4f, 0xb0, 0xd6, 0x96, 0x3f, 0x7d, 0x28, 0xe1, 0x7f,
      0x72]"
  by code_simp

text \<open>The digests of the two runs.\<close>

lemma md5_bytes_seed_A:
  "md5_bytes (ascii_bytes ''AAAAAAAAAAAAAAAAAAAAAA==-Phonetic'') =
     [84, 131, 122, 64, 77, 155, 100, 23, 158, 59, 215, 24, 116, 54, 168, 161]"
  by code_simp

lemma md5_numeric_seed_A: "md5_numeric ''AAAAAAAAAAAAAAAAAAAAAA=='' = 4603154611"
  by (simp add: md5_numeric_def md5_bytes_seed_A numericHash_spec_def le_value_def)

lemma md5_bytes_draw_A1:
  "md5_bytes (ascii_bytes ''4603154611-Phonetic'') =
     [25, 186, 169, 75, 220, 24, 252, 90, 2, 234, 85, 140, 8, 199, 189, 121]"
  by code_simp

lemma md5_numeric_draw_A1: "md5_numeric ''4603154611'' = 7192806399"
  by (simp add: md5_numeric_def md5_bytes_draw_A1 numericHash_spec_def le_value_def)

lemma md5_bytes_draw_A2:
  "md5_bytes (ascii_bytes ''7192806399f-Phonetic'') =
     [56, 150, 82, 20, 249, 183, 13, 49, 109, 140, 136, 159, 20, 10, 224, 175]"
  by code_simp

lemma md5_numeric_draw_A2: "md5_numeric ''7192806399f'' = 6791161010"
  by (simp add: md5_numeric_def md5_bytes_draw_A2 numericHash_spec_def le_value_def)

lemma md5_bytes_draw_A2_after:
  "md5_bytes (ascii_bytes ''7192806399fu-Phonetic'') =
     [95, 210, 30, 15, 247, 203, 36, 55, 58, 159, 131, 236, 23, 214, 107, 184]"
  by code_simp

lemma md5_numeric_draw_A2_after: "md5_numeric ''7192806399fu'' = 8240960423"
  by (simp add: md5_numeric_def md5_bytes_draw_A2_after numericHash_spec_def le_value_def)

lemma md5_bytes_seed_B:
  "md5_bytes (ascii_bytes ''AQEBAQEBAQEBAQEBAQEBAQ==-Phonetic'') =
     [144, 36, 95, 16, 29, 193, 100, 163, 169, 132, 173, 65, 255, 29, 180, 143]"
  by code_simp

lemma md5_numeric_seed_B: "md5_numeric ''AQEBAQEBAQEBAQEBAQEBAQ=='' = 6528796757"
  by (simp add: md5_numeric_def md5_bytes_seed_B numericHash_spec_def le_value_def)

lemma md5_bytes_draw_B1:
  "md5_bytes (ascii_bytes ''6528796757-Phonetic'') =
     [35, 141, 51, 78, 39, 35, 209, 133, 187, 48, 158, 49, 139, 167, 154, 70]"
  by code_simp

lemma md5_numeric_draw_B1: "md5_numeric ''6528796757'' = 5574068368"
  by (simp add: md5_numeric_def md5_bytes_draw_B1 numericHash_spec_def le_value_def)

lemma md5_bytes_draw_B2:
  "md5_bytes (ascii_bytes ''5574068368i-Phonetic'') =
     [18, 251, 54, 49, 108, 53, 52, 226, 70, 32, 215, 39, 149, 156, 219, 196]"
  by code_simp

lemma md5_numeric_draw_B2: "md5_numeric ''5574068368i'' = 8591895897"
  by (simp add: md5_numeric_def md5_bytes_draw_B2 numericHash_spec_def le_value_def)

text \<open>
  The two runs of \<^verbatim>\<open>generate({ seed: '', syllables: 1 })\<close>. With the entropy text \<open>A\<close> the
  seed hashes to 4603154611, the first syllable takes \<open>f\<close> from \<^verbatim>\<open>PHONETIC_PRE\<close> and \<open>u\<close> from
  \<^verbatim>\<open>PHONETIC_MID\<close>; with \<open>B\<close> the seed hashes to 6528796757 and the syllable is \<open>i\<close>, \<open>t\<close>.
\<close>

lemmas run_simps =
  generate_wordObj_unfold resolved_seed_def resolved_syllables_def getNumericHash_md5
  initial_wordObj_def syllable_loop.simps addSyllable_def Let_def getDerivative_def
  getDerivative_loop.simps js_rem_def getOptions_def getNextPhonetic_def selectPhonetic_def
  phoneticCap_def appendPhonetic_def js_str_def PHONETIC_PRE_def PHONETIC_MID_def
  PHONETIC_POST_def PHONETIC_PRE_SIMPLE_LENGTH_def PHONETIC_MID_SIMPLE_LENGTH_def
  PHONETIC_POST_SIMPLE_LENGTH_def decimal.simps digit_def

lemma run_A:
  "generate_wordObj md5_digest entropy_A options_empty_seed =
     Some (Inr \<lparr> numeric = 6791161010, lastSkippedPre = False, lastSkippedPost = True,
                  word = ''fu'', opts = getOptions entropy_A options_empty_seed \<rparr>)"
  by (simp add: run_simps entropy_A_def options_empty_seed_def
      md5_numeric_seed_A md5_numeric_draw_A1 md5_numeric_draw_A2)

lemma run_B:
  "generate_wordObj md5_digest entropy_B options_empty_seed =
     Some (Inr \<lparr> numeric = 8591895897, lastSkippedPre = True,
                  lastSkippedPost = False, word = ''it'',
                  opts = getOptions entropy_B options_empty_seed \<rparr>)"
  by (simp add: run_simps entropy_B_def options_empty_seed_def
      md5_numeric_seed_B md5_numeric_draw_B1 md5_numeric_draw_B2)

lemma replacements_fu:
  "foldl (\<lambda>w (regex, replacement). js_replace regex replacement w) ''fu'' REPLACEMENTS = ''fu''"
  by code_simp

lemma replacements_it:
  "foldl (\<lambda>w (regex, replacement). js_replace regex replacement w) ''it'' REPLACEMENTS = ''it''"
  by code_simp

lemma capFirst_str_fu: "capFirst_str ''fu'' = ''Fu''"
  by code_simp

lemma capFirst_str_it: "capFirst_str ''it'' = ''It''"
  by code_simp

lemma capFirst_options_empty_seed:
  "capFirst (getOptions rnd options_empty_seed) = Some True"
  by (simp add: getOptions_def options_empty_seed_def)

lemma generate_A: "generate md5_digest entropy_A options_empty_seed = Some (Inr ''Fu'')"
  by (simp add: generate_def run_A postProcess_def replacements_fu capFirst_str_fu
      capFirst_options_empty_seed)

lemma generate_B: "generate md5_digest entropy_B options_empty_seed = Some (Inr ''It'')"
  by (simp add: generate_def run_B postProcess_def replacements_it capFirst_str_it
      capFirst_options_empty_seed)

lemma draw_A2:
  "getNextPhonetic md5_digest PHONETIC_MID PHONETIC_MID_SIMPLE_LENGTH wordObj_f False =
     Inr (Some ''u'', wordObj_f\<lparr>numeric := 6791161010\<rparr>)"
  by (simp add: run_simps wordObj_f_def entropy_A_def options_empty_seed_def md5_numeric_draw_A2)

lemma postProcess_quu: "postProcess wordObj_quu = ''Quequuze''"
  by code_simp

section \<open>Further facts about the generator\<close>

lemma generate_resolved:
  "getOptions rnd opt = getOptions rnd' opt' \<Longrightarrow> generate md5 rnd opt = generate md5 rnd' opt'"
  by (simp add: generate_def generate_wordObj_def)

lemma getOptions_syllables_zero:
  "getOptions rnd (opt\<lparr>syllables := Some 0\<rparr>) = getOptions rnd (opt\<lparr>syllables := Some 3\<rparr>)"
  by (simp add: getOptions_def)

lemma generate_nonempty:
  assumes "wf_digest md5" and "0 \<le> resolved_syllables opt"
  shows "\<exists>h w. getNumericHash md5 (resolved_seed rnd opt) = Inr h
           \<and> addSyllables md5 (nat (resolved_syllables opt))
                 (initial_wordObj h (getOptions rnd opt)) = Inr w
           \<and> generate md5 rnd opt = Some (Inr (postProcess w)) \<and> postProcess w \<noteq> []"
proof -
  from generate_wordObj_positive [OF assms, of rnd] obtain h w where
    "getNumericHash md5 (resolved_seed rnd opt) = Inr h"
    "addSyllables md5 (nat (resolved_syllables opt)) (initial_wordObj h (getOptions rnd opt)) = Inr w"
    "generate_wordObj md5 rnd opt = Some (Inr w)" "word w \<noteq> []"
    by blast
  with postProcess_nonempty [of w] show ?thesis by (auto simp: generate_def)
qed

lemma generate_negative:
  assumes "wf_digest md5" and "resolved_syllables opt < 0"
  shows "generate md5 rnd opt = None"
  using generate_wordObj_negative [OF assms] by (simp add: generate_def)

lemma uppercase_first_postProcess:
  assumes "capFirst (opts w) = Some False"
  shows "postProcess (setCapFirst (Some True) w) = uppercase_first (postProcess w)"
  using assms
  by (simp add: postProcess_def Let_def setCapFirst_simps capFirst_str_uppercase_first)

lemma generate_wordObj_setCapFirst:
  "generate_wordObj md5 rnd (opt\<lparr>capFirst := Some True\<rparr>) =
     map_option (map_sum id (setCapFirst (Some True)))
       (generate_wordObj md5 rnd (opt\<lparr>capFirst := Some False\<rparr>))"
proof -
  have s: "resolved_seed rnd (opt\<lparr>capFirst := b\<rparr>) = resolved_seed rnd opt"
    "resolved_syllables (opt\<lparr>capFirst := b\<rparr>) = resolved_syllables opt" for b
    by (simp_all add: resolved_seed_def resolved_syllables_def)
  have i: "initial_wordObj h (getOptions rnd (opt\<lparr>capFirst := Some b\<rparr>)) =
      setCapFirst (Some b) (initial_wordObj h (getOptions rnd opt))" for h b
    by (simp add: initial_wordObj_def getOptions_capFirst setCapFirst_def)
  show ?thesis
  proof (cases "getNumericHash md5 (resolved_seed rnd opt)")
    case (Inl e)
    then show ?thesis by (simp add: generate_wordObj_unfold s)
  next
    case (Inr h)
    with syllable_loop_setCapFirst
      [of md5 "resolved_syllables opt" "Some True" "Some False"
          "initial_wordObj h (getOptions rnd opt)"]
    show ?thesis by (simp add: generate_wordObj_unfold s i setCapFirst_simps)
  qed
qed

lemma generate_wordObj_opts:
  assumes "generate_wordObj md5 rnd opt = Some (Inr w)"
  shows "opts w = getOptions rnd opt"
proof -
  from assms obtain h where
    "syllable_loop md5 (resolved_syllables opt) (initial_wordObj h (getOptions rnd opt)) = Some (Inr w)"
    by (auto simp: generate_wordObj_unfold split: sum.splits)
  from syllable_loop_Inr [OF this] addSyllables_opts show ?thesis
    by (fastforce simp: initial_wordObj_def)
qed

lemma generate_capFirst:
  "generate md5 rnd (opt\<lparr>capFirst := Some True\<rparr>) =
     map_option (map_sum id uppercase_first) (generate md5 rnd (opt\<lparr>capFirst := Some False\<rparr>))"
proof (cases "generate_wordObj md5 rnd (opt\<lparr>capFirst := Some False\<rparr>)")
  case None
  then show ?thesis by (simp add: generate_def generate_wordObj_setCapFirst)
next
  case (Some r)
  show ?thesis
  proof (cases r)
    case (Inl e)
    with Some show ?thesis by (simp add: generate_def generate_wordObj_setCapFirst)
  next
    case (Inr w)
    with Some generate_wordObj_opts [of md5 rnd "opt\<lparr>capFirst := Some False\<rparr>" w]
    have "capFirst (opts w) = Some False" by (simp add: getOptions_def)
    from uppercase_first_postProcess [OF this] Some Inr show ?thesis
      by (simp add: generate_def generate_wordObj_setCapFirst)
  qed
qed

lemma generate_wordObj_frag_concat:
  assumes "generate_wordObj md5 rnd opt = Some (Inr w)"
  shows "frag_concat (word w)"
proof -
  from assms obtain h where
    "syllable_loop md5 (resolved_syllables opt) (initial_wordObj h (getOptions rnd opt)) =
       Some (Inr w)"
    by (auto simp: generate_wordObj_unfold split: sum.splits)
  from syllable_loop_Inr [OF this]
  have "addSyllables md5 (nat (resolved_syllables opt))
          (initial_wordObj h (getOptions rnd opt)) = Inr w" by simp
  from addSyllables_frag_concat [OF this] show ?thesis
    by (simp add: initial_wordObj_def frag_empty)
qed

text \<open>The word \<^verbatim>\<open>generate\<close> returns without the capital holds lower-case letters only.\<close>

lemma generate_lowercase:
  assumes "generate md5 rnd opt = Some (Inr s)" and "capFirst opt = Some False"
  shows "set s \<subseteq> Collect lowercase"
proof -
  from assms(1) obtain r where r: "generate_wordObj md5 rnd opt = Some r"
    and m: "map_sum id postProcess r = Inr s"
    by (auto simp: generate_def)
  from m obtain w0 where "r = Inr w0" and s: "s = postProcess w0" by (cases r) auto
  with r have w: "generate_wordObj md5 rnd opt = Some (Inr w0)" by simp
  from generate_wordObj_opts [OF w] assms(2) have "capFirst (opts w0) = Some False"
    by (simp add: getOptions_def)
  with s replaced_word_lowercase [OF generate_wordObj_frag_concat [OF w]] show ?thesis
    by (simp add: postProcess_def Let_def)
qed

text \<open>
  The run with the entropy text \<open>B\<close> again, now with \<open>capFirst: false\<close>, and the run with \<open>A\<close>
  with \<open>capFirst: true\<close>.
\<close>

lemma run_B_lower:
  "generate_wordObj md5_digest entropy_B (options_empty_seed\<lparr>capFirst := Some False\<rparr>) =
     Some (Inr \<lparr> numeric = 8591895897, lastSkippedPre = True, lastSkippedPost = False,
                  word = ''it'',
                  opts = getOptions entropy_B (options_empty_seed\<lparr>capFirst := Some False\<rparr>) \<rparr>)"
  by (simp add: run_simps entropy_B_def options_empty_seed_def
      md5_numeric_seed_B md5_numeric_draw_B1 md5_numeric_draw_B2)

lemma generate_B_lower:
  "generate md5_digest entropy_B (options_empty_seed\<lparr>capFirst := Some False\<rparr>) =
     Some (Inr ''it'')"
proof -
  have "capFirst (getOptions entropy_B (options_empty_seed\<lparr>capFirst := Some False\<rparr>)) =
        Some False"
    by (simp add: getOptions_def)
  then show ?thesis
    by (simp add: generate_def run_B_lower postProcess_def replacements_it)
qed

lemma generate_A_upper:
  "generate md5_digest entropy_A (options_empty_seed\<lparr>capFirst := Some True\<rparr>) =
     Some (Inr ''Fu'')"
proof -
  have "getOptions entropy_A (options_empty_seed\<lparr>capFirst := Some True\<rparr>) =
        getOptions entropy_A options_empty_seed"
    by (simp add: getOptions_def options_empty_seed_def)
  from generate_resolved [OF this, of md5_digest] generate_A show ?thesis by simp
qed

lemma uppercase_first_it: "uppercase_first ''it'' = ''It''"
  using capFirst_str_uppercase_first [of "''it''"] capFirst_str_it by simp

section \<open>The claims\<close>

subsection \<open>C1: the text the fragment selection hashes\<close>

text \<open>
  Claim C1, as amended. When \<^verbatim>\<open>getNextPhonetic\<close> returns, the new \<open>numeric\<close> is the numeric
  hash of the decimal text of the old \<open>numeric\<close> followed by the word as it stands when the
  function is called, that is before the chosen fragment is appended: the function leaves
  the word alone, and the caller appends the fragment to it afterwards. The text hashed for
  a draw holds the fragments of the earlier draws and not the fragment of this draw.
\<close>

theorem getNextPhonetic_hash_input:
  assumes "getNextPhonetic md5 phoneticSet simpleCap wordObj forceSimple = Inr (phonetic, wordObj')"
  shows "Inr (numeric wordObj') = getNumericHash md5 (decimal (numeric wordObj) @ word wordObj)
    \<and> word wordObj' = word wordObj
    \<and> (\<forall>setSkipped w''.
          appendPhonetic setSkipped
            (getNextPhonetic md5 phoneticSet simpleCap wordObj forceSimple) = Inr w''
          \<longrightarrow> w'' = setSkipped False (wordObj'\<lparr>word := word wordObj @ js_str phonetic\<rparr>))"
proof -
  from getNextPhonetic_Inr [OF assms]
  have n: "Inr (numeric wordObj') = getNumericHash md5 (decimal (numeric wordObj) @ word wordObj)"
    and w: "wordObj' = wordObj\<lparr>numeric := numeric wordObj'\<rparr>" by auto
  from w have ww: "word wordObj' = word wordObj"
    by (metis select_convs surjective update_convs)
  from assms ww n show ?thesis by (simp add: appendPhonetic_def)
qed

text \<open>
  The second draw of a run: the word is \<open>f\<close>, the draw yields \<open>u\<close>, and the new number is the
  hash of \<open>7192806399f\<close>.
\<close>

theorem getNextPhonetic_hash_input_witness:
  "getNextPhonetic md5_digest PHONETIC_MID PHONETIC_MID_SIMPLE_LENGTH wordObj_f False =
     Inr (Some ''u'', wordObj_f\<lparr>numeric := 6791161010\<rparr>)
   \<and> Inr (numeric (wordObj_f\<lparr>numeric := 6791161010\<rparr>)) =
       getNumericHash md5_digest (decimal (numeric wordObj_f) @ word wordObj_f)
   \<and> word wordObj_f = ''f''
   \<and> word (wordObj_f\<lparr>numeric := 6791161010\<rparr>) = word wordObj_f"
  using getNextPhonetic_hash_input [OF draw_A2] draw_A2 by (simp add: wordObj_f_def)

text \<open>
  Claim C1 as stated fails there: the new number is not the hash of the old number
  followed by the word with the new fragment, \<open>7192806399fu\<close>.
\<close>

theorem getNextPhonetic_hash_after_append_counterexample:
  "getNextPhonetic md5_digest PHONETIC_MID PHONETIC_MID_SIMPLE_LENGTH wordObj_f False =
     Inr (Some ''u'', wordObj_f\<lparr>numeric := 6791161010\<rparr>)
   \<and> Inr (numeric (wordObj_f\<lparr>numeric := 6791161010\<rparr>)) \<noteq>
       getNumericHash md5_digest (decimal (numeric wordObj_f) @ (word wordObj_f @ ''u''))"
  using draw_A2
  by (simp add: wordObj_f_def getNumericHash_md5 decimal.simps digit_def
      md5_numeric_draw_A2_after)

subsection \<open>C2: determinism\<close>

text \<open>
  Claim C2, as amended. For options with a seed that is not the empty text, the result
  of \<^verbatim>\<open>generate\<close> does not depend on the entropy source: two calls with the same options
  return the same.
\<close>

theorem generate_deterministic:
  assumes "seed opt = Some s" and "s \<noteq> []"
  shows "generate md5 rnd opt = generate md5 rnd' opt"
  using getOptions_seed [OF assms, of rnd rnd']
  by (simp add: generate_def generate_wordObj_def)

theorem generate_deterministic_witness:
  "seed options_x = Some ''x'' \<and> ''x'' \<noteq> []
   \<and> generate md5_digest entropy_A options_x = generate md5_digest entropy_B options_x"
  using generate_deterministic [of options_x "''x''" md5_digest entropy_A entropy_B]
  by (simp add: options_x_def)

text \<open>
  Claim C2 as stated fails for the seed \<open>''\<close>, a text that \<^verbatim>\<open>overrides.seed || ...\<close> replaces
  by the random one: two calls with these options and two values of the entropy source
  return different words.
\<close>

theorem generate_empty_seed_counterexample:
  "seed options_empty_seed = Some []
   \<and> generate md5_digest entropy_A options_empty_seed = Some (Inr ''Fu'')
   \<and> generate md5_digest entropy_B options_empty_seed = Some (Inr ''It'')
   \<and> generate md5_digest entropy_A options_empty_seed \<noteq>
       generate md5_digest entropy_B options_empty_seed"
  by (simp add: generate_A generate_B) (simp add: options_empty_seed_def)

subsection \<open>C3: zero syllables\<close>

text \<open>
  Claim C3, as amended. A \<open>syllables\<close> of \<open>0\<close> is replaced by the default \<open>3\<close> when the options
  are resolved: \<^verbatim>\<open>generate\<close> returns what it returns for \<open>syllables: 3\<close>, after three
  invocations of \<^verbatim>\<open>addSyllable\<close>, and the word is not empty (for a digest of 16 bytes).
\<close>

theorem generate_syllables_zero:
  assumes "wf_digest md5"
  shows "generate md5 rnd (opt\<lparr>syllables := Some 0\<rparr>) = generate md5 rnd (opt\<lparr>syllables := Some 3\<rparr>)
    \<and> (\<exists>h w. getNumericHash md5 (resolved_seed rnd opt) = Inr h
           \<and> addSyllables md5 3 (initial_wordObj h (getOptions rnd (opt\<lparr>syllables := Some 0\<rparr>))) = Inr w
           \<and> generate md5 rnd (opt\<lparr>syllables := Some 0\<rparr>) = Some (Inr (postProcess w))
           \<and> postProcess w \<noteq> [])"
proof -
  let ?o = "opt\<lparr>syllables := Some 0\<rparr>"
  have r: "resolved_syllables ?o = 3" "resolved_seed rnd ?o = resolved_seed rnd opt"
    by (simp_all add: resolved_syllables_def resolved_seed_def)
  from generate_nonempty [OF assms, of ?o rnd] r
  have "\<exists>h w. getNumericHash md5 (resolved_seed rnd opt) = Inr h
           \<and> addSyllables md5 3 (initial_wordObj h (getOptions rnd ?o)) = Inr w
           \<and> generate md5 rnd ?o = Some (Inr (postProcess w)) \<and> postProcess w \<noteq> []"
    by simp
  with generate_resolved [OF getOptions_syllables_zero, of md5 rnd opt] show ?thesis by simp
qed

theorem generate_syllables_zero_witness:
  "generate md5_digest [] (options_x\<lparr>syllables := Some 0, capFirst := Some False\<rparr>) =
     generate md5_digest [] (options_x\<lparr>syllables := Some 3, capFirst := Some False\<rparr>)
   \<and> (\<exists>w. generate md5_digest [] (options_x\<lparr>syllables := Some 0, capFirst := Some False\<rparr>) =
            Some (Inr w) \<and> w \<noteq> [])"
proof -
  have "options_x\<lparr>syllables := Some n, capFirst := Some False\<rparr> =
        options_x\<lparr>capFirst := Some False\<rparr>\<lparr>syllables := Some n\<rparr>" for n
    by (simp add: options_x_def)
  with generate_syllables_zero [OF wf_md5_digest, of "[]" "options_x\<lparr>capFirst := Some False\<rparr>"]
  show ?thesis by metis
qed

text \<open>
  Claim C3 as stated fails: \<^verbatim>\<open>generate({ seed: 'x', syllables: 0, capFirst: false })\<close> is not
  the empty text.
\<close>

theorem generate_syllables_zero_counterexample:
  "generate md5_digest []
     \<lparr> syllables = Some 0, seed = Some ''x'', phoneticSimplicity = None,
       compoundSimplicity = None, capFirst = Some False \<rparr> \<noteq> Some (Inr [])"
proof -
  let ?o = "\<lparr> syllables = Some 0, seed = Some ''x'', phoneticSimplicity = None,
       compoundSimplicity = None, capFirst = Some False \<rparr>"
  have "0 \<le> resolved_syllables ?o" by (simp add: resolved_syllables_def)
  from generate_nonempty [OF wf_md5_digest this, of "[]"] show ?thesis by auto
qed

subsection \<open>C4: termination\<close>

text \<open>
  Claim C4 says that \<^verbatim>\<open>generate\<close> terminates for every options value, negative syllables
  included. The code at \<^verbatim>\<open>generate({ seed: 'x', syllables: -1 })\<close>: the counter of
  \<^verbatim>\<open>while (syllables--)\<close> starts below \<open>0\<close> and never is \<open>0\<close>, so the loop is never left.
\<close>

theorem generate_negative_syllables_diverges:
  "generate md5_digest []
     \<lparr> syllables = Some (- 1), seed = Some ''x'', phoneticSimplicity = None,
       compoundSimplicity = None, capFirst = None \<rparr> = None"
  by (rule generate_negative [OF wf_md5_digest]) (simp add: resolved_syllables_def)

subsection \<open>C5: clamping of the simplicity options\<close>

text \<open>
  Claim C5, as amended. A provided \<open>phoneticSimplicity\<close> or \<open>compoundSimplicity\<close> \<open>v\<close> that is
  not \<open>0\<close> is resolved to \<open>max v 1\<close>; a provided \<open>0\<close> is resolved to the default \<open>5\<close>. This
  happens in \<^verbatim>\<open>getOptions\<close>, which hashes nothing, and \<^verbatim>\<open>generate\<close> depends on its options
  through the resolved ones only.
\<close>

theorem getOptions_clamps:
  "phoneticSimplicity (getOptions rnd (opt\<lparr>phoneticSimplicity := Some v\<rparr>)) =
      Some (if v = 0 then 5 else max v 1)
   \<and> compoundSimplicity (getOptions rnd (opt\<lparr>compoundSimplicity := Some v\<rparr>)) =
      Some (if v = 0 then 5 else max v 1)
   \<and> generate md5 rnd opt = generate md5 rnd (getOptions rnd opt)"
  using generate_resolved [of rnd "getOptions rnd opt" rnd opt md5]
  by (simp add: getOptions_idem) (simp add: getOptions_def)

theorem getOptions_clamps_witness:
  "phoneticSimplicity (getOptions [] (options_x\<lparr>phoneticSimplicity := Some (- 3)\<rparr>)) = Some 1
   \<and> compoundSimplicity (getOptions [] (options_x\<lparr>compoundSimplicity := Some 7\<rparr>)) = Some 7
   \<and> phoneticSimplicity (getOptions [] (options_x\<lparr>phoneticSimplicity := Some 0\<rparr>)) = Some 5"
  using getOptions_clamps [where rnd = "[]" and opt = options_x and v = "- 3" and ?md5.0 = md5_digest]
    getOptions_clamps [where rnd = "[]" and opt = options_x and v = 7 and ?md5.0 = md5_digest]
    getOptions_clamps [where rnd = "[]" and opt = options_x and v = 0 and ?md5.0 = md5_digest]
  by simp

text \<open>
  Claim C5 as stated fails for \<open>v = 0\<close>: the resolved value is \<open>5\<close>, not \<open>max 0 1\<close>.
\<close>

theorem getOptions_clamp_zero_counterexample:
  "phoneticSimplicity
     (getOptions []
        \<lparr> syllables = None, seed = Some ''x'', phoneticSimplicity = Some 0,
          compoundSimplicity = Some 0, capFirst = None \<rparr>) \<noteq> Some (max 0 1)
   \<and> compoundSimplicity
     (getOptions []
        \<lparr> syllables = None, seed = Some ''x'', phoneticSimplicity = Some 0,
          compoundSimplicity = Some 0, capFirst = None \<rparr>) \<noteq> Some (max 0 1)"
  by (simp add: getOptions_def)

subsection \<open>C6: post-processing\<close>

text \<open>
  Claim C6. \<^verbatim>\<open>postProcess\<close> (the loop over the keys of \<^verbatim>\<open>REPLACEMENTS\<close>, then \<^verbatim>\<open>capFirst\<close>)
  applies the eight pairs in the order of the table, each to its first match only, and then
  puts the first character in upper case exactly when the \<open>capFirst\<close> option is true.
\<close>

theorem postProcess_replacements:
  "postProcess wordObj = postProcess_spec (word wordObj) (capFirst (opts wordObj) = Some True)"
  by (simp add: postProcess_def postProcess_spec_def REPLACEMENTS_def Let_def
      js_replace_first capFirst_str_uppercase_first)

theorem postProcess_replacements_witness:
  "postProcess_spec ''quuquuz'' True = ''Quequuze''"
  using postProcess_replacements [of wordObj_quu] postProcess_quu
  by (simp add: wordObj_quu_def getOptions_def options_x_def)

subsection \<open>C7: the capitalization contract\<close>

text \<open>
  Claim C7, as amended. For options with a seed that is not the empty text, the result of
  \<^verbatim>\<open>generate\<close> with \<open>capFirst: true\<close> is the result with \<open>capFirst: false\<close> and the same other
  options, its first character in upper case and the others unchanged, whatever the entropy
  source yields in the two calls. For any options value the same holds of two calls that
  resolve the same seed.
\<close>

theorem capFirst_contract:
  "generate md5 rnd (opt\<lparr>capFirst := Some True\<rparr>) =
     map_option (map_sum id uppercase_first) (generate md5 rnd (opt\<lparr>capFirst := Some False\<rparr>))
   \<and> (\<forall>s rnd'. seed opt = Some s \<and> s \<noteq> [] \<longrightarrow>
         generate md5 rnd (opt\<lparr>capFirst := Some True\<rparr>) =
           map_option (map_sum id uppercase_first)
             (generate md5 rnd' (opt\<lparr>capFirst := Some False\<rparr>)))"
proof (intro conjI allI impI)
  show c: "generate md5 rnd (opt\<lparr>capFirst := Some True\<rparr>) =
     map_option (map_sum id uppercase_first) (generate md5 rnd (opt\<lparr>capFirst := Some False\<rparr>))"
    by (rule generate_capFirst)
  fix s rnd'
  assume "seed opt = Some s \<and> s \<noteq> []"
  then have "seed (opt\<lparr>capFirst := Some False\<rparr>) = Some s" and "s \<noteq> []" by simp_all
  then have "getOptions rnd' (opt\<lparr>capFirst := Some False\<rparr>) =
             getOptions rnd (opt\<lparr>capFirst := Some False\<rparr>)"
    by (rule getOptions_seed)
  then have "generate md5 rnd' (opt\<lparr>capFirst := Some False\<rparr>) =
             generate md5 rnd (opt\<lparr>capFirst := Some False\<rparr>)"
    by (rule generate_resolved)
  with c show "generate md5 rnd (opt\<lparr>capFirst := Some True\<rparr>) =
           map_option (map_sum id uppercase_first)
             (generate md5 rnd' (opt\<lparr>capFirst := Some False\<rparr>))"
    by simp
qed

theorem capFirst_contract_witness:
  "seed options_x = Some ''x'' \<and> ''x'' \<noteq> []
   \<and> generate md5_digest [] (options_x\<lparr>capFirst := Some True\<rparr>) =
       map_option (map_sum id uppercase_first)
         (generate md5_digest ''RND'' (options_x\<lparr>capFirst := Some False\<rparr>))"
proof -
  have s: "seed options_x = Some ''x'' \<and> ''x'' \<noteq> []" by (simp add: options_x_def)
  from capFirst_contract [of md5_digest "[]" options_x]
  have "\<forall>s rnd'. seed options_x = Some s \<and> s \<noteq> [] \<longrightarrow>
         generate md5_digest [] (options_x\<lparr>capFirst := Some True\<rparr>) =
           map_option (map_sum id uppercase_first)
             (generate md5_digest rnd' (options_x\<lparr>capFirst := Some False\<rparr>))"
    by (rule conjunct2)
  with s show ?thesis by blast
qed

text \<open>
  Claim C7 as stated fails for the seed \<open>''\<close>, which \<^verbatim>\<open>overrides.seed || ...\<close> replaces by the
  random one in each call: with \<open>syllables: 1\<close> the call with \<open>capFirst: true\<close> returns \<open>Fu\<close> when
  the entropy source yields \<open>A\<close>, and the call with \<open>capFirst: false\<close> returns \<open>it\<close> when it
  yields \<open>B\<close>.
\<close>

theorem capFirst_contract_empty_seed_counterexample:
  "seed options_empty_seed = Some []
   \<and> generate md5_digest entropy_A (options_empty_seed\<lparr>capFirst := Some True\<rparr>) =
       Some (Inr ''Fu'')
   \<and> generate md5_digest entropy_B (options_empty_seed\<lparr>capFirst := Some False\<rparr>) =
       Some (Inr ''it'')
   \<and> generate md5_digest entropy_A (options_empty_seed\<lparr>capFirst := Some True\<rparr>) \<noteq>
       map_option (map_sum id uppercase_first)
         (generate md5_digest entropy_B (options_empty_seed\<lparr>capFirst := Some False\<rparr>))"
  by (simp add: generate_A_upper generate_B_lower uppercase_first_it)
    (simp add: options_empty_seed_def)

subsection \<open>C8: the numeric hash\<close>

text \<open>
  Claim C8. For a digest that returns 16 bytes on the input followed by the salt
  \<open>-Phonetic\<close>, \<^verbatim>\<open>getNumericHash\<close> returns the sum of the four little-endian 32-bit words at
  the byte offsets 0, 4, 8 and 12 of these bytes. It is a function of the digest and the
  input alone: equal inputs give equal results.
\<close>

theorem getNumericHash_le_words:
  assumes "md5 (input @ ''-Phonetic'') = Some digest16" and "length digest16 = 16"
  shows "getNumericHash md5 input = Inr (numericHash_spec digest16)"
  using assms by (simp add: getNumericHash_def getNumericHash_loop_16)

theorem getNumericHash_le_words_witness:
  "md5_digest (''4603154611'' @ ''-Phonetic'') =
     Some [25, 186, 169, 75, 220, 24, 252, 90, 2, 234, 85, 140, 8, 199, 189, 121]
   \<and> getNumericHash md5_digest ''4603154611'' = Inr 7192806399"
proof -
  have d: "md5_digest (''4603154611'' @ ''-Phonetic'') =
     Some [25, 186, 169, 75, 220, 24, 252, 90, 2, 234, 85, 140, 8, 199, 189, 121]"
    by (simp add: md5_digest_def md5_bytes_draw_A1)
  from getNumericHash_le_words [of md5_digest "''4603154611''", OF d] d show ?thesis
    by (simp add: numericHash_spec_def le_value_def)
qed

subsection \<open>C9: the raw word\<close>

text \<open>
  Claim C9. Every invocation of \<^verbatim>\<open>addSyllable\<close> that returns keeps the word a concatenation
  of entries of \<^verbatim>\<open>PHONETIC_PRE\<close>, \<^verbatim>\<open>PHONETIC_MID\<close> and \<^verbatim>\<open>PHONETIC_POST\<close>, and so the word
  \<^verbatim>\<open>generate\<close> has built when it calls \<^verbatim>\<open>postProcess\<close> is such a concatenation, for every
  options value.
\<close>

theorem raw_word_fragments:
  "(\<forall>w'. frag_concat (word w) \<and> addSyllable md5 w = Inr w' \<longrightarrow> frag_concat (word w'))
   \<and> (\<forall>w'. generate_wordObj md5 rnd opt = Some (Inr w') \<longrightarrow> frag_concat (word w'))"
  by (auto intro: addSyllable_frag_concat generate_wordObj_frag_concat)

theorem raw_word_fragments_witness:
  "generate_wordObj md5_digest entropy_A options_empty_seed =
     Some (Inr \<lparr> numeric = 6791161010, lastSkippedPre = False, lastSkippedPost = True,
                  word = ''fu'', opts = getOptions entropy_A options_empty_seed \<rparr>)
   \<and> frag_concat ''fu''"
  using raw_word_fragments [of w md5_digest entropy_A options_empty_seed] run_A
  by simp

subsection \<open>C10: the table lookup is in bounds\<close>

text \<open>
  Claim C10. For each of the three (table, simple length) pairs of \<^verbatim>\<open>addSyllable\<close> and every
  word object (its \<open>numeric\<close> is a natural number), the index \<^verbatim>\<open>numeric % cap\<close> is below the
  length of the table, so the phonetic is an entry of the table and never undefined.
\<close>

theorem selectPhonetic_defined:
  assumes "(phoneticSet, simpleCap) \<in> tables"
  shows "numeric wordObj mod phoneticCap phoneticSet simpleCap wordObj forceSimple
           < length phoneticSet
    \<and> selectPhonetic phoneticSet simpleCap wordObj forceSimple =
        Some (phoneticSet !
                (numeric wordObj mod phoneticCap phoneticSet simpleCap wordObj forceSimple))
    \<and> (\<forall>phonetic wordObj'.
          getNextPhonetic md5 phoneticSet simpleCap wordObj forceSimple = Inr (phonetic, wordObj')
          \<longrightarrow> (\<exists>f \<in> set phoneticSet. phonetic = Some f))"
  using selectPhonetic_in_bounds [OF assms, of wordObj forceSimple]
    selectPhonetic_member [OF assms, of wordObj forceSimple]
  by (auto dest: getNextPhonetic_Inr)

theorem selectPhonetic_defined_witness:
  "(PHONETIC_MID, PHONETIC_MID_SIMPLE_LENGTH) \<in> tables
   \<and> phoneticCap PHONETIC_MID PHONETIC_MID_SIMPLE_LENGTH wordObj_f False = 5
   \<and> numeric wordObj_f mod 5 = 4 \<and> 4 < length PHONETIC_MID
   \<and> selectPhonetic PHONETIC_MID PHONETIC_MID_SIMPLE_LENGTH wordObj_f False = Some ''u''"
proof -
  have c: "phoneticCap PHONETIC_MID PHONETIC_MID_SIMPLE_LENGTH wordObj_f False = 5"
    by (simp add: phoneticCap_def wordObj_f_def getOptions_def options_empty_seed_def
        getDerivative_def getDerivative_loop.simps js_rem_def PHONETIC_MID_SIMPLE_LENGTH_def)
  have n: "numeric wordObj_f mod 5 = 4" by (simp add: wordObj_f_def)
  have e: "PHONETIC_MID ! 4 = ''u''" by (simp add: PHONETIC_MID_def)
  from selectPhonetic_defined [OF tables_mem(2), of wordObj_f False md5_digest] c n e
  have "selectPhonetic PHONETIC_MID PHONETIC_MID_SIMPLE_LENGTH wordObj_f False = Some ''u''"
    by simp
  with c n tables_mem(2) table_lengths(2) show ?thesis by simp
qed

end
